theory Spec2Isabelle
  imports Complex_Main "HOL-Library.Sublist" "HOL-Library.Log_Nat"
begin

section \<open>Text primitives\<close>

text \<open>
  A Python \<open>str\<close> is modelled as a \<open>string\<close> whose characters are the code points
  0..255. The character classes below are those of Python 3 on that range:
  \<open>str.isspace\<close> (used by \<open>str.strip\<close> and by \<open>\s\<close>), \<open>str.lower\<close>, the
  decimal digits of \<open>\d\<close> and the word characters of \<open>\w\<close> (which decide \<open>\b\<close>).
\<close>

definition code :: "char \<Rightarrow> nat" where
  "code c = of_char c"

definition is_space :: "char \<Rightarrow> bool" where
  "is_space c = (let n = code c in
     (9 \<le> n \<and> n \<le> 13) \<or> (28 \<le> n \<and> n \<le> 32) \<or> n = 133 \<or> n = 160)"

definition is_digit :: "char \<Rightarrow> bool" where
  "is_digit c = (let n = code c in 48 \<le> n \<and> n \<le> 57)"

definition is_ascii_letter :: "char \<Rightarrow> bool" where
  "is_ascii_letter c = (let n = code c in (65 \<le> n \<and> n \<le> 90) \<or> (97 \<le> n \<and> n \<le> 122))"

definition is_word :: "char \<Rightarrow> bool" where
  "is_word c = (let n = code c in
     is_digit c \<or> is_ascii_letter c \<or> n = 95 \<or> n = 170 \<or> n = 178 \<or> n = 179 \<or> n = 181
     \<or> n = 185 \<or> n = 186 \<or> n = 188 \<or> n = 189 \<or> n = 190
     \<or> (192 \<le> n \<and> n \<le> 214) \<or> (216 \<le> n \<and> n \<le> 246) \<or> (248 \<le> n \<and> n \<le> 255))"

definition lower_char :: "char \<Rightarrow> char" where
  "lower_char c = (let n = code c in
     if (65 \<le> n \<and> n \<le> 90) \<or> (192 \<le> n \<and> n \<le> 222 \<and> n \<noteq> 215) then char_of (n + 32) else c)"

definition lower :: "string \<Rightarrow> string" where
  "lower s = map lower_char s"

definition strip :: "string \<Rightarrow> string" where
  "strip s = rev (dropWhile is_space (rev (dropWhile is_space s)))"

text \<open>\<open>sub in s\<close> on strings.\<close>

fun contains :: "string \<Rightarrow> string \<Rightarrow> bool" where
  "contains sub [] = (sub = [])"
| "contains sub (c # cs) = (prefix sub (c # cs) \<or> contains sub cs)"

text \<open>\<open>s.replace(old, new)\<close> for a one-character \<open>old\<close>.\<close>

definition replace_char :: "char \<Rightarrow> string \<Rightarrow> string \<Rightarrow> string" where
  "replace_char old new s = concat (map (\<lambda>c. if c = old then new else [c]) s)"

section \<open>Regular expressions\<close>

text \<open>
  The patterns of the program use literals, character classes, sequence, alternation,
  the greedy quantifiers \<open>?\<close>, \<open>*\<close>, \<open>+\<close>, the word boundary \<open>\b\<close> and the anchor
  \<open>^\<close>. A position in the subject is the pair of the text before it (reversed) and the
  text after it. \<open>ms r p\<close> lists the positions where a match of \<open>r\<close> started at \<open>p\<close>
  can end, in the order in which Python's backtracking matcher tries them: the first
  alternative first, the longest repetition first.
\<close>

datatype re =
    Eps
  | Chr char
  | Cls "char \<Rightarrow> bool"
  | Seq re re
  | Alt re re
  | Opt re
  | Star re
  | WordB
  | Bol

type_synonym pos = "string \<times> string"

fun step_if :: "(char \<Rightarrow> bool) \<Rightarrow> pos \<Rightarrow> pos list" where
  "step_if P (b, []) = []"
| "step_if P (b, c # cs) = (if P c then [(c # b, cs)] else [])"

fun at_word_boundary :: "pos \<Rightarrow> bool" where
  "at_word_boundary (b, a) =
     ((case b of [] \<Rightarrow> False | c # _ \<Rightarrow> is_word c) \<noteq> (case a of [] \<Rightarrow> False | c # _ \<Rightarrow> is_word c))"

text \<open>
  Repetition, longest first. An iteration that consumes nothing ends the loop; the
  bodies repeated in this program are character classes, which always consume.
\<close>

primrec star_iter :: "nat \<Rightarrow> (pos \<Rightarrow> pos list) \<Rightarrow> pos \<Rightarrow> pos list" where
  "star_iter 0 f p = [p]"
| "star_iter (Suc n) f p =
     concat (map (\<lambda>q. if length (snd q) < length (snd p) then star_iter n f q else []) (f p)) @ [p]"

primrec ms :: "re \<Rightarrow> pos \<Rightarrow> pos list" where
  "ms Eps p = [p]"
| "ms (Chr c) p = step_if (\<lambda>x. x = c) p"
| "ms (Cls P) p = step_if P p"
| "ms (Seq r s) p = concat (map (ms s) (ms r p))"
| "ms (Alt r s) p = ms r p @ ms s p"
| "ms (Opt r) p = ms r p @ [p]"
| "ms (Star r) p = star_iter (length (snd p)) (ms r) p"
| "ms WordB p = (if at_word_boundary p then [p] else [])"
| "ms Bol p = (if fst p = [] then [p] else [])"

definition Plus :: "re \<Rightarrow> re" where
  "Plus r = Seq r (Star r)"

definition lit :: "string \<Rightarrow> re" where
  "lit s = foldr (\<lambda>c r. Seq (Chr c) r) s Eps"

text \<open>The text between two positions of the same subject.\<close>

definition between :: "pos \<Rightarrow> pos \<Rightarrow> string" where
  "between p q = take (length (snd p) - length (snd q)) (snd p)"

text \<open>
  A pattern with groups is given as the list of its consecutive pieces;
  \<open>match_parts\<close> returns, for every way of matching, the text each piece matched and
  the end position, again in the matcher's order.
\<close>

fun match_parts :: "re list \<Rightarrow> pos \<Rightarrow> (string list \<times> pos) list" where
  "match_parts [] p = [([], p)]"
| "match_parts (r # rs) p =
     concat (map (\<lambda>q. map (\<lambda>(gs, e). (between p q # gs, e)) (match_parts rs q)) (ms r p))"

text \<open>\<open>re.search\<close>: the first way of matching at the leftmost position that has one.\<close>

fun search_from :: "re list \<Rightarrow> string \<Rightarrow> string \<Rightarrow> (string list \<times> pos) option" where
  "search_from rs b [] = (case match_parts rs (b, []) of [] \<Rightarrow> None | m # _ \<Rightarrow> Some m)"
| "search_from rs b (c # cs) =
     (case match_parts rs (b, c # cs) of [] \<Rightarrow> search_from rs (c # b) cs | m # _ \<Rightarrow> Some m)"

definition re_search :: "re list \<Rightarrow> string \<Rightarrow> (string list \<times> pos) option" where
  "re_search rs text = search_from rs [] text"

text \<open>
  \<open>re.findall\<close> for a pattern without groups: the matched texts, left to right, each
  search resuming where the last match ended (one character further after an empty match).
\<close>

function findall_from :: "re \<Rightarrow> string \<Rightarrow> string \<Rightarrow> string list" where
  "findall_from r b [] = (case ms r (b, []) of [] \<Rightarrow> [] | q # _ \<Rightarrow> [[]])"
| "findall_from r b (c # cs) =
     (case ms r (b, c # cs) of
        [] \<Rightarrow> findall_from r (c # b) cs
      | q # _ \<Rightarrow>
          (if length (snd q) < length (c # cs)
           then between (b, c # cs) q # findall_from r (fst q) (snd q)
           else [] # findall_from r (c # b) cs))"
  by pat_completeness auto
termination
  by (relation "measure (\<lambda>(r, b, a). length a)") auto

definition re_findall :: "re \<Rightarrow> string \<Rightarrow> string list" where
  "re_findall r text = findall_from r [] text"

section \<open>Intent classification\<close>

text \<open>The three keyword patterns of \<open>classify_intent\<close>, each starting with \<open>\b\<close>.\<close>

definition convert_pattern :: re where
  "convert_pattern =
     Seq WordB (Alt (lit ''convert'')
       (Seq (lit ''to '') (Alt (lit ''cm'') (Alt (lit ''m'') (Alt (lit ''kg'') (lit ''lb''))))))"

definition stats_pattern :: re where
  "stats_pattern = Seq WordB (Alt (lit ''mean'') (Alt (lit ''median'') (lit ''average'')))"

definition csv_pattern :: re where
  "csv_pattern = Seq WordB (Alt (lit ''csv'') (Alt (lit ''spreadsheet'') (lit ''save'')))"

definition calc_tokens :: "string list" where
  "calc_tokens = [''+'', ''-'', ''*'', ''/'', ''sqrt'', ''^'']"

definition classify_intent :: "string \<Rightarrow> string" where
  "classify_intent text =
     (let text_l = strip (lower text) in
      if re_search [convert_pattern] text_l \<noteq> None then ''convert''
      else if re_search [stats_pattern] text_l \<noteq> None then ''stats''
      else if re_search [csv_pattern] text_l \<noteq> None then ''generate_csv''
      else if prefix ''calculate'' text_l \<or> list_ex (\<lambda>tok. contains tok text_l) calc_tokens
        then ''calculate''
      else ''unknown'')"

section \<open>Values, exceptions and the library environment\<close>

text \<open>
  Python numbers: \<open>int\<close> is unbounded; in the evaluator and in the statistics a
  \<open>float\<close> is modelled by the rational it denotes, with exact arithmetic (rounding,
  overflow, infinities, NaN and the sign of zero are outside this part of the model; the
  unit conversion below is modelled in binary64). Complex numbers are not modelled.
\<close>

datatype pyval = PInt int | PFloat rat

text \<open>
  Exceptions. \<open>ValueError\<close> and \<open>TypeError\<close> carry their message; \<open>KeyError\<close> carries
  the missing key and \<open>AttributeError\<close> the class of the object and the attribute.
  \<open>OtherError\<close> stands for any other exception class a library function may raise.
\<close>

datatype exn =
    SyntaxError
  | ValueError string
  | TypeError string
  | KeyError string
  | AttributeError string string
  | ZeroDivisionError
  | StatisticsError
  | OtherError string

text \<open>The classes of \<open>ast\<close> operator nodes, binary and unary.\<close>

datatype opclass =
    Add | Sub | Mult | Div | Pow | Mod | FloorDiv | MatMult
  | LShift | RShift | BitOr | BitXor | BitAnd
  | USub | UAdd | Not | Invert

text \<open>
  The expression nodes, with the fields the evaluator reads: \<open>Num\<close> is a
  numeric constant, \<open>Str\<close> a string constant, \<open>OtherNode c\<close> a node of any other class
  \<open>c\<close> (comparison, lambda, subscript, ...).
\<close>

datatype expr =
    Num pyval
  | Str string
  | Name string
  | Attribute expr string
  | BinOp expr opclass expr
  | UnaryOp opclass expr
  | Call expr "expr list"
  | Expression expr
  | OtherNode string

type_synonym pyfun = "pyval list \<Rightarrow> exn + pyval"

text \<open>
  What the program takes from Python's standard library and this development does not
  define: the contents of the \<open>math\<close> module (\<open>dir(math)\<close> and what calling each
  attribute does), the four builtins added to the whitelist, and the behaviour of
  \<open>operator.pow\<close>, \<open>ast.parse\<close>, \<open>float\<close> and \<open>repr\<close> outside the part modelled
  below. Every theorem holds for every such environment.
\<close>

record pylib =
  math_dir :: "string list"
  math_attr :: "string \<Rightarrow> pyfun"
  builtin :: "string \<Rightarrow> pyfun"
  pow_other :: "pyval \<Rightarrow> pyval \<Rightarrow> exn + pyval"
  parse_other :: "string \<Rightarrow> exn + expr"
  float_other :: "string \<Rightarrow> exn + rat"
  repr_other :: "rat \<Rightarrow> string"

section \<open>The whitelists\<close>

fun to_rat :: "pyval \<Rightarrow> rat" where
  "to_rat (PInt i) = of_int i"
| "to_rat (PFloat q) = q"

fun op_add :: pyfun where
  "op_add [PInt a, PInt b] = Inr (PInt (a + b))"
| "op_add [a, b] = Inr (PFloat (to_rat a + to_rat b))"
| "op_add _ = Inl (TypeError ''add expected 2 arguments'')"

fun op_sub :: pyfun where
  "op_sub [PInt a, PInt b] = Inr (PInt (a - b))"
| "op_sub [a, b] = Inr (PFloat (to_rat a - to_rat b))"
| "op_sub _ = Inl (TypeError ''sub expected 2 arguments'')"

fun op_mul :: pyfun where
  "op_mul [PInt a, PInt b] = Inr (PInt (a * b))"
| "op_mul [a, b] = Inr (PFloat (to_rat a * to_rat b))"
| "op_mul _ = Inl (TypeError ''mul expected 2 arguments'')"

fun op_truediv :: pyfun where
  "op_truediv [a, b] =
     (if to_rat b = 0 then Inl ZeroDivisionError else Inr (PFloat (to_rat a / to_rat b)))"
| "op_truediv _ = Inl (TypeError ''truediv expected 2 arguments'')"

fun op_mod :: pyfun where
  "op_mod [PInt a, PInt b] = (if b = 0 then Inl ZeroDivisionError else Inr (PInt (a mod b)))"
| "op_mod [a, b] =
     (if to_rat b = 0 then Inl ZeroDivisionError
      else Inr (PFloat (to_rat a - of_int \<lfloor>to_rat a / to_rat b\<rfloor> * to_rat b)))"
| "op_mod _ = Inl (TypeError ''mod expected 2 arguments'')"

text \<open>
  Powers are computed where the result is rational: an integer to an integer, and a
  float to an integral exponent. The rest is the environment's.
\<close>

definition rat_pow :: "rat \<Rightarrow> int \<Rightarrow> exn + pyval" where
  "rat_pow x k =
     (if 0 \<le> k then Inr (PFloat (x ^ nat k))
      else if x = 0 then Inl ZeroDivisionError
      else Inr (PFloat (1 / x ^ nat (- k))))"

fun op_pow :: "pylib \<Rightarrow> pyfun" where
  "op_pow L [PInt a, PInt b] = (if 0 \<le> b then Inr (PInt (a ^ nat b)) else rat_pow (of_int a) b)"
| "op_pow L [a, PInt b] = rat_pow (to_rat a) b"
| "op_pow L [a, PFloat y] =
     (if of_int \<lfloor>y\<rfloor> = y then rat_pow (to_rat a) \<lfloor>y\<rfloor> else pow_other L a (PFloat y))"
| "op_pow L _ = Inl (TypeError ''pow expected 2 arguments'')"

fun op_neg :: pyfun where
  "op_neg [PInt a] = Inr (PInt (- a))"
| "op_neg [PFloat x] = Inr (PFloat (- x))"
| "op_neg _ = Inl (TypeError ''neg expected 1 argument'')"

fun op_pos :: pyfun where
  "op_pos [a] = Inr a"
| "op_pos _ = Inl (TypeError ''pos expected 1 argument'')"

fun ALLOWED_OPERATORS :: "pylib \<Rightarrow> opclass \<rightharpoonup> pyfun" where
  "ALLOWED_OPERATORS L Add = Some op_add"
| "ALLOWED_OPERATORS L Sub = Some op_sub"
| "ALLOWED_OPERATORS L Mult = Some op_mul"
| "ALLOWED_OPERATORS L Div = Some op_truediv"
| "ALLOWED_OPERATORS L Pow = Some (op_pow L)"
| "ALLOWED_OPERATORS L Mod = Some op_mod"
| "ALLOWED_OPERATORS L USub = Some op_neg"
| "ALLOWED_OPERATORS L UAdd = Some op_pos"
| "ALLOWED_OPERATORS L _ = None"

definition math_names :: "pylib \<Rightarrow> string \<rightharpoonup> pyfun" where
  "math_names L k =
     (if k \<in> set (math_dir L) \<and> \<not> prefix ''_'' k then Some (math_attr L k) else None)"

definition ALLOWED_NAMES :: "pylib \<Rightarrow> string \<rightharpoonup> pyfun" where
  "ALLOWED_NAMES L =
     (math_names L)(''abs'' \<mapsto> builtin L ''abs'', ''round'' \<mapsto> builtin L ''round'',
                    ''min'' \<mapsto> builtin L ''min'', ''max'' \<mapsto> builtin L ''max'')"

section \<open>The evaluator\<close>

text \<open>
  Calling a library function is the evaluator's only effect. The model records it:
  an evaluation returns the list of what it invoked, in order, with its outcome.
\<close>

datatype invoked = InvOp opclass | InvName string

type_synonym 'a outcome = "invoked list \<times> (exn + 'a)"

fun op_name :: "opclass \<Rightarrow> string" where
  "op_name Add = ''Add''" | "op_name Sub = ''Sub''" | "op_name Mult = ''Mult''"
| "op_name Div = ''Div''" | "op_name Pow = ''Pow''" | "op_name Mod = ''Mod''"
| "op_name FloorDiv = ''FloorDiv''" | "op_name MatMult = ''MatMult''"
| "op_name LShift = ''LShift''" | "op_name RShift = ''RShift''"
| "op_name BitOr = ''BitOr''" | "op_name BitXor = ''BitXor''" | "op_name BitAnd = ''BitAnd''"
| "op_name USub = ''USub''" | "op_name UAdd = ''UAdd''"
| "op_name Not = ''Not''" | "op_name Invert = ''Invert''"

fun class_name :: "expr \<Rightarrow> string" where
  "class_name (Num v) = ''Constant''"
| "class_name (Str s) = ''Constant''"
| "class_name (Name x) = ''Name''"
| "class_name (Attribute e a) = ''Attribute''"
| "class_name (BinOp l opr r) = ''BinOp''"
| "class_name (UnaryOp opr e) = ''UnaryOp''"
| "class_name (Call f as) = ''Call''"
| "class_name (Expression e) = ''Expression''"
| "class_name (OtherNode c) = c"

text \<open>
  \<open>_eval\<close>. In \<open>ALLOWED_OPERATORS[type(node.op)](_eval(...), ...)\<close> the table lookup
  comes before the operands, so a missing operator raises \<open>KeyError\<close> before anything is
  evaluated. \<open>node.func.id\<close> exists on \<open>Name\<close> nodes only. The message of the final
  \<open>TypeError\<close> ends with the node's \<open>repr\<close>, which is left out here.
\<close>

fun eval_node :: "pylib \<Rightarrow> expr \<Rightarrow> pyval outcome"
  and eval_args :: "pylib \<Rightarrow> expr list \<Rightarrow> (pyval list) outcome" where
  "eval_node L (Num v) = ([], Inr v)"
| "eval_node L (BinOp l opr r) =
     (case ALLOWED_OPERATORS L opr of
        None \<Rightarrow> ([], Inl (KeyError (op_name opr)))
      | Some f \<Rightarrow>
          (case eval_node L l of
             (t1, Inl e) \<Rightarrow> (t1, Inl e)
           | (t1, Inr a) \<Rightarrow>
               (case eval_node L r of
                  (t2, Inl e) \<Rightarrow> (t1 @ t2, Inl e)
                | (t2, Inr b) \<Rightarrow> (t1 @ t2 @ [InvOp opr], f [a, b]))))"
| "eval_node L (UnaryOp opr x) =
     (case ALLOWED_OPERATORS L opr of
        None \<Rightarrow> ([], Inl (KeyError (op_name opr)))
      | Some f \<Rightarrow>
          (case eval_node L x of
             (t, Inl e) \<Rightarrow> (t, Inl e)
           | (t, Inr a) \<Rightarrow> (t @ [InvOp opr], f [a])))"
| "eval_node L (Call (Name func) args) =
     (case ALLOWED_NAMES L func of
        Some g \<Rightarrow>
          (case eval_args L args of
             (t, Inl e) \<Rightarrow> (t, Inl e)
           | (t, Inr vs) \<Rightarrow> (t @ [InvName func], g vs))
      | None \<Rightarrow> ([], Inl (ValueError (''Function '' @ func @ '' not allowed''))))"
| "eval_node L (Call callee args) = ([], Inl (AttributeError (class_name callee) ''id''))"
| "eval_node L (Expression body) = eval_node L body"
| "eval_node L node = ([], Inl (TypeError ''Unsupported expression''))"
| "eval_args L [] = ([], Inr [])"
| "eval_args L (a # as) =
     (case eval_node L a of
        (t1, Inl e) \<Rightarrow> (t1, Inl e)
      | (t1, Inr v) \<Rightarrow>
          (case eval_args L as of
             (t2, Inl e) \<Rightarrow> (t1 @ t2, Inl e)
           | (t2, Inr vs) \<Rightarrow> (t1 @ t2, Inr (v # vs))))"

section \<open>Parsing\<close>

text \<open>
  \<open>ast.parse(expr, mode="eval")\<close> is Python's own parser. The part of it written out
  here covers the arithmetic fragment of the expression grammar: decimal literals
  (\<open>12\<close>, \<open>1.5\<close>, \<open>2.\<close>), identifiers that are not keywords, single-quoted strings of
  letters, digits, blanks and underscores, the operators \<open>+ - * / // % **\<close>, parentheses,
  calls with positional arguments and attribute access, with blanks between tokens.
  On a text outside the fragment \<open>parse_fragment\<close> is \<open>None\<close> and the result is the
  environment's \<open>parse_other\<close>.
\<close>

datatype token =
    TNum pyval | TStr string | TName string
  | TPlus | TMinus | TStar | TDStar | TSlash | TDSlash | TPercent
  | TLPar | TRPar | TComma | TDot

definition is_ident_start :: "char \<Rightarrow> bool" where
  "is_ident_start c = (is_ascii_letter c \<or> c = CHR ''_'')"

definition is_ident_char :: "char \<Rightarrow> bool" where
  "is_ident_char c = (is_ascii_letter c \<or> is_digit c \<or> c = CHR ''_'')"

definition is_str_char :: "char \<Rightarrow> bool" where
  "is_str_char c = (is_ident_char c \<or> c = CHR '' '')"

definition py_keywords :: "string list" where
  "py_keywords = [''False'', ''None'', ''True'', ''and'', ''as'', ''assert'', ''async'', ''await'',
     ''break'', ''class'', ''continue'', ''def'', ''del'', ''elif'', ''else'', ''except'',
     ''finally'', ''for'', ''from'', ''global'', ''if'', ''import'', ''in'', ''is'', ''lambda'',
     ''nonlocal'', ''not'', ''or'', ''pass'', ''raise'', ''return'', ''try'', ''while'', ''with'',
     ''yield'', ''print'', ''exec'']"

text \<open>The value of a string of decimal digits, and of \<open>digits.digits\<close>.\<close>

definition digit_val :: "char \<Rightarrow> nat" where
  "digit_val c = code c - 48"

definition nat_of_digits :: "string \<Rightarrow> nat" where
  "nat_of_digits ds = foldl (\<lambda>n c. 10 * n + digit_val c) 0 ds"

definition decimal :: "string \<Rightarrow> string \<Rightarrow> rat" where
  "decimal ds fs = of_nat (nat_of_digits (ds @ fs)) / 10 ^ length fs"

text \<open>
  A literal directly followed by a letter, a digit or an underscore (\<open>1e5\<close>, \<open>0x1F\<close>,
  \<open>1_000\<close>, \<open>2j\<close>) and an integer with a leading zero are left to the environment.
\<close>

definition ends_token :: "string \<Rightarrow> bool" where
  "ends_token r = (case r of [] \<Rightarrow> True | c # _ \<Rightarrow> \<not> is_ident_char c)"

definition push :: "token \<Rightarrow> token list option \<Rightarrow> token list option" where
  "push t r = map_option (\<lambda>ts. t # ts) r"

function tokenize :: "string \<Rightarrow> token list option" where
  "tokenize [] = Some []"
| "tokenize (c # cs) =
     (if c = CHR '' '' then tokenize cs
      else if is_digit c then
        (let ds = c # takeWhile is_digit cs; r = dropWhile is_digit cs in
         case r of
           d # r1 \<Rightarrow>
             (if d = CHR 0x2E then
                (let fs = takeWhile is_digit r1; r2 = dropWhile is_digit r1 in
                 if ends_token r2 then push (TNum (PFloat (decimal ds fs))) (tokenize r2) else None)
              else if is_ident_char d \<or> (c = CHR ''0'' \<and> ds \<noteq> ''0'') then None
              else push (TNum (PInt (int (nat_of_digits ds)))) (tokenize r))
         | [] \<Rightarrow>
             (if c = CHR ''0'' \<and> ds \<noteq> ''0'' then None
              else Some [TNum (PInt (int (nat_of_digits ds)))]))
      else if is_ident_start c then
        (let nm = c # takeWhile is_ident_char cs in
         if nm \<in> set py_keywords then None
         else push (TName nm) (tokenize (dropWhile is_ident_char cs)))
      else if c = CHR 0x27 then
        (case dropWhile is_str_char cs of
           q # r \<Rightarrow> if q = CHR 0x27 then push (TStr (takeWhile is_str_char cs)) (tokenize r) else None
         | [] \<Rightarrow> None)
      else if c = CHR ''*'' then
        (case cs of
           d # r \<Rightarrow> if d = CHR ''*'' then push TDStar (tokenize r) else push TStar (tokenize cs)
         | [] \<Rightarrow> Some [TStar])
      else if c = CHR ''/'' then
        (case cs of
           d # r \<Rightarrow> if d = CHR ''/'' then push TDSlash (tokenize r) else push TSlash (tokenize cs)
         | [] \<Rightarrow> Some [TSlash])
      else if c = CHR ''+'' then push TPlus (tokenize cs)
      else if c = CHR ''-'' then push TMinus (tokenize cs)
      else if c = CHR ''%'' then push TPercent (tokenize cs)
      else if c = CHR ''('' then push TLPar (tokenize cs)
      else if c = CHR '')'' then push TRPar (tokenize cs)
      else if c = CHR '','' then push TComma (tokenize cs)
      else if c = CHR 0x2E then push TDot (tokenize cs)
      else None)"
  by pat_completeness auto
termination
proof (relation "measure length", goal_cases)
  case 1
  show ?case by simp
next
  case (3 c cs ds r d r1 fs r2)
  have "length (dropWhile is_digit r1) \<le> length r1" by (rule length_dropWhile_le)
  moreover have "length (d # r1) \<le> length cs"
    using 3 length_dropWhile_le [of is_digit cs] by simp
  ultimately show ?case using 3 by simp
next
  case (4 c cs ds r d r1)
  then show ?case using length_dropWhile_le [of is_digit cs] by simp
next
  case (5 c cs nm)
  then show ?case using length_dropWhile_le [of is_ident_char cs] by simp
next
  case (6 c cs q r)
  then show ?case using length_dropWhile_le [of is_str_char cs] by simp
qed simp_all

text \<open>
  Recursive descent along Python's grammar: \<open>sum\<close>, \<open>term\<close>, \<open>factor\<close>, \<open>power\<close>,
  \<open>primary\<close> with its trailers, and \<open>arguments\<close>. One step of the descent takes
  the parser for the steps below it; \<open>parse n\<close> descends at most \<open>n\<close> steps, and a
  text that needs more is outside the fragment.
\<close>

fun sum_op :: "token \<Rightarrow> opclass option" where
  "sum_op TPlus = Some Add"
| "sum_op TMinus = Some Sub"
| "sum_op _ = None"

fun term_op :: "token \<Rightarrow> opclass option" where
  "term_op TStar = Some Mult"
| "term_op TSlash = Some Div"
| "term_op TDSlash = Some FloorDiv"
| "term_op TPercent = Some Mod"
| "term_op _ = None"

fun unary_op :: "token \<Rightarrow> opclass option" where
  "unary_op TPlus = Some UAdd"
| "unary_op TMinus = Some USub"
| "unary_op _ = None"

fun atom_of :: "token \<Rightarrow> expr option" where
  "atom_of (TNum v) = Some (Num v)"
| "atom_of (TStr s) = Some (Str s)"
| "atom_of (TName x) = Some (Name x)"
| "atom_of _ = None"

fun name_of :: "token \<Rightarrow> string option" where
  "name_of (TName x) = Some x"
| "name_of _ = None"

text \<open>\<open>expect t ts\<close>: the tokens after a leading \<open>t\<close>.\<close>

fun expect :: "token \<Rightarrow> token list \<Rightarrow> token list option" where
  "expect t [] = None"
| "expect t (u # r) = (if u = t then Some r else None)"

text \<open>
  What is being parsed: a \<open>sum\<close>, the rest of a sum after its left operand, a
  \<open>term\<close>, the rest of a term, a \<open>factor\<close>, a \<open>primary\<close>, the trailers after a
  primary, and the arguments of a call after the ones already read.
\<close>

datatype nonterm =
    NSum | NSumRest expr
  | NTerm | NTermRest expr
  | NFactor
  | NPrimary | NTrailers expr
  | NArgs expr "expr list"

type_synonym parsed = "(expr \<times> token list) option"

fun p_step :: "(nonterm \<Rightarrow> token list \<Rightarrow> parsed) \<Rightarrow> nonterm \<Rightarrow> token list \<Rightarrow> parsed" where
  "p_step rec NSum ts =
     (case rec NTerm ts of None \<Rightarrow> None | Some (e, r) \<Rightarrow> rec (NSumRest e) r)"
| "p_step rec (NSumRest e) [] = Some (e, [])"
| "p_step rec (NSumRest e) (t # r) =
     (case sum_op t of
        None \<Rightarrow> Some (e, t # r)
      | Some opr \<Rightarrow>
          (case rec NTerm r of
             None \<Rightarrow> None
           | Some (e', r') \<Rightarrow> rec (NSumRest (BinOp e opr e')) r'))"
| "p_step rec NTerm ts =
     (case rec NFactor ts of None \<Rightarrow> None | Some (e, r) \<Rightarrow> rec (NTermRest e) r)"
| "p_step rec (NTermRest e) [] = Some (e, [])"
| "p_step rec (NTermRest e) (t # r) =
     (case term_op t of
        None \<Rightarrow> Some (e, t # r)
      | Some opr \<Rightarrow>
          (case rec NFactor r of
             None \<Rightarrow> None
           | Some (e', r') \<Rightarrow> rec (NTermRest (BinOp e opr e')) r'))"
| "p_step rec NFactor [] = None"
| "p_step rec NFactor (t # r) =
     (case unary_op t of
        Some opr \<Rightarrow>
          (case rec NFactor r of None \<Rightarrow> None | Some (e, r') \<Rightarrow> Some (UnaryOp opr e, r'))
      | None \<Rightarrow>
          (case rec NPrimary (t # r) of
             None \<Rightarrow> None
           | Some (e, r1) \<Rightarrow>
               (case expect TDStar r1 of
                  None \<Rightarrow> Some (e, r1)
                | Some r2 \<Rightarrow>
                    (case rec NFactor r2 of
                       None \<Rightarrow> None
                     | Some (e', r3) \<Rightarrow> Some (BinOp e Pow e', r3)))))"
| "p_step rec NPrimary [] = None"
| "p_step rec NPrimary (t # r) =
     (case atom_of t of
        Some a \<Rightarrow> rec (NTrailers a) r
      | None \<Rightarrow>
          (if t = TLPar then
             (case rec NSum r of
                None \<Rightarrow> None
              | Some (e, r1) \<Rightarrow>
                  (case expect TRPar r1 of None \<Rightarrow> None | Some r2 \<Rightarrow> rec (NTrailers e) r2))
           else None))"
| "p_step rec (NTrailers e) [] = Some (e, [])"
| "p_step rec (NTrailers e) (t # r) =
     (if t = TDot then
        (case r of
           [] \<Rightarrow> None
         | u # r1 \<Rightarrow>
             (case name_of u of None \<Rightarrow> None | Some a \<Rightarrow> rec (NTrailers (Attribute e a)) r1))
      else if t = TLPar then
        (case expect TRPar r of
           Some r1 \<Rightarrow> rec (NTrailers (Call e [])) r1
         | None \<Rightarrow> rec (NArgs e []) r)
      else Some (e, t # r))"
| "p_step rec (NArgs f as) ts =
     (case rec NSum ts of
        None \<Rightarrow> None
      | Some (e, r) \<Rightarrow>
          (case expect TComma r of
             Some r1 \<Rightarrow> rec (NArgs f (as @ [e])) r1
           | None \<Rightarrow>
               (case expect TRPar r of
                  None \<Rightarrow> None
                | Some r2 \<Rightarrow> rec (NTrailers (Call f (as @ [e]))) r2)))"

primrec parse :: "nat \<Rightarrow> nonterm \<Rightarrow> token list \<Rightarrow> parsed" where
  "parse 0 nt ts = None"
| "parse (Suc n) nt ts = p_step (parse n) nt ts"

text \<open>Eight levels of descent for each token are more than the grammar can use.\<close>

fun fuel_of :: "token list \<Rightarrow> nat" where
  "fuel_of [] = Suc (Suc (Suc (Suc (Suc (Suc (Suc (Suc 0)))))))"
| "fuel_of (t # ts) = Suc (Suc (Suc (Suc (Suc (Suc (Suc (Suc (fuel_of ts))))))))"

text \<open>
  The fragment stops at 500 characters and 50 opening parentheses, well inside the
  limits of Python's parser and of the interpreter's recursion limit (which is not
  modelled), and does not start with a blank.
\<close>

definition parse_fragment :: "string \<Rightarrow> expr option" where
  "parse_fragment s =
     (if length s > 500 \<or> prefix '' '' s then None
      else case tokenize s of
        None \<Rightarrow> None
      | Some ts \<Rightarrow>
          (if length (filter (\<lambda>t. t = TLPar) ts) > 50 then None
           else case parse (fuel_of ts) NSum ts of
             Some (e, []) \<Rightarrow> Some e
           | _ \<Rightarrow> None))"

text \<open>\<open>ast.parse(expr, mode="eval").body\<close>.\<close>

definition ast_parse_body :: "pylib \<Rightarrow> string \<Rightarrow> exn + expr" where
  "ast_parse_body L s = (case parse_fragment s of Some e \<Rightarrow> Inr e | None \<Rightarrow> parse_other L s)"

definition safe_eval :: "pylib \<Rightarrow> string \<Rightarrow> pyval outcome" where
  "safe_eval L expr =
     (case ast_parse_body L expr of
        Inl e \<Rightarrow> ([], Inl e)
      | Inr body \<Rightarrow> eval_node L body)"

section \<open>Binary64 floats\<close>

text \<open>
  The unit conversion works on Python floats, which are IEEE 754 binary64 numbers. A
  finite one is the rational it denotes, a multiple of \<open>2^-1074\<close>; the two zeros are not
  told apart.
\<close>

datatype double = Fin rat | PInf | NInf | NaN

text \<open>Rounding to the nearest integer, a tie going to the even one.\<close>

definition round_half_even :: "rat \<Rightarrow> int" where
  "round_half_even t =
     (let f = \<lfloor>t\<rfloor>; r = t - of_int f in
      if r < 1 / 2 then f else if 1 / 2 < r then f + 1 else if even f then f else f + 1)"

text \<open>
  Rounding works on \<open>t = q * 2^1074\<close>. Below \<open>2^53\<close> the floats are the integers;
  from there on, the floats between \<open>2^(b-1)\<close> and \<open>2^b\<close> are the multiples of
  \<open>2^(b-53)\<close>, where \<open>b\<close> is the number of bits of the integer part of \<open>t\<close>.
\<close>

definition spacing :: "rat \<Rightarrow> nat" where
  "spacing t = 2 ^ (floorlog 2 (nat \<lfloor>\<bar>t\<bar>\<rfloor>) - 53)"

definition nearest :: "rat \<Rightarrow> int" where
  "nearest t = round_half_even (t / of_nat (spacing t)) * int (spacing t)"

text \<open>
  The float nearest to a rational, ties to even; from \<open>2^1024 - 2^970\<close> on, the result
  is an infinity.
\<close>

definition round_double :: "rat \<Rightarrow> double" where
  "round_double q =
     (let k = nearest (q * 2 ^ 1074) in
      if 2 ^ 2098 \<le> \<bar>k\<bar> then (if 0 < q then PInf else NInf) else Fin (of_int k / 2 ^ 1074))"

text \<open>
  \<open>x * y\<close> and \<open>x / y\<close> on floats: the exact result, rounded. A division by zero
  raises; an overflow gives an infinity without raising.
\<close>

definition signed_inf :: "bool \<Rightarrow> double" where
  "signed_inf positive = (if positive then PInf else NInf)"

fun fmul :: "double \<Rightarrow> double \<Rightarrow> double" where
  "fmul NaN y = NaN"
| "fmul x NaN = NaN"
| "fmul (Fin a) (Fin b) = round_double (a * b)"
| "fmul (Fin a) PInf = (if a = 0 then NaN else signed_inf (0 < a))"
| "fmul (Fin a) NInf = (if a = 0 then NaN else signed_inf (a < 0))"
| "fmul PInf (Fin b) = (if b = 0 then NaN else signed_inf (0 < b))"
| "fmul NInf (Fin b) = (if b = 0 then NaN else signed_inf (b < 0))"
| "fmul PInf PInf = PInf"
| "fmul NInf NInf = PInf"
| "fmul PInf NInf = NInf"
| "fmul NInf PInf = NInf"

fun fdiv :: "double \<Rightarrow> double \<Rightarrow> exn + double" where
  "fdiv x (Fin b) =
     (if b = 0 then Inl ZeroDivisionError
      else Inr (case x of
                  Fin a \<Rightarrow> round_double (a / b)
                | PInf \<Rightarrow> signed_inf (0 < b)
                | NInf \<Rightarrow> signed_inf (b < 0)
                | NaN \<Rightarrow> NaN))"
| "fdiv x NaN = Inr NaN"
| "fdiv (Fin a) y = Inr (Fin 0)"
| "fdiv x y = Inr NaN"

section \<open>Unit conversion\<close>

text \<open>The literal \<open>0.45359237\<close> is the float nearest to that decimal.\<close>

definition lb_in_kg :: double where
  "lb_in_kg = round_double (45359237 / 100000000)"

text \<open>The four registered conversions; the integer \<open>100\<close> is converted to a float.\<close>

definition UNIT_MAP :: "string \<times> string \<rightharpoonup> (double \<Rightarrow> exn + double)" where
  "UNIT_MAP =
     [(''m'', ''cm'') \<mapsto> (\<lambda>x. Inr (fmul x (Fin 100))),
      (''cm'', ''m'') \<mapsto> (\<lambda>x. fdiv x (Fin 100)),
      (''kg'', ''lb'') \<mapsto> (\<lambda>x. fdiv x lb_in_kg),
      (''lb'', ''kg'') \<mapsto> (\<lambda>x. Inr (fmul x lb_in_kg))]"

definition convert_units :: "double \<Rightarrow> string \<Rightarrow> string \<Rightarrow> exn + double" where
  "convert_units v from_unit to_unit =
     (let key = (lower from_unit, lower to_unit) in
      case UNIT_MAP key of
        Some f \<Rightarrow> f v
      | None \<Rightarrow>
          Inl (ValueError (''No converter registered for '' @ from_unit @ '' -> '' @ to_unit)))"

section \<open>Numbers in text\<close>

text \<open>The pattern \<open>-?\d+\.?\d*\<close>.\<close>

definition number_pattern :: re where
  "number_pattern =
     Seq (Opt (Chr CHR ''-''))
       (Seq (Plus (Cls is_digit)) (Seq (Opt (Chr CHR 0x2E)) (Star (Cls is_digit))))"

text \<open>
  \<open>float(s)\<close> on an optional minus sign, digits, and an optional point followed by
  digits; on any other text it is the environment's \<open>float_other\<close>.
\<close>

definition unsigned_decimal :: "string \<Rightarrow> rat option" where
  "unsigned_decimal u =
     (let ds = takeWhile is_digit u in
      if ds = [] then None
      else case dropWhile is_digit u of
        [] \<Rightarrow> Some (decimal ds [])
      | d # fs \<Rightarrow>
          (if d = CHR 0x2E \<and> list_all is_digit fs then Some (decimal ds fs) else None))"

fun parse_decimal :: "string \<Rightarrow> rat option" where
  "parse_decimal [] = None"
| "parse_decimal (c # cs) =
     (if c = CHR ''-'' then map_option uminus (unsigned_decimal cs) else unsigned_decimal (c # cs))"

definition py_float :: "pylib \<Rightarrow> string \<Rightarrow> exn + rat" where
  "py_float L s = (case parse_decimal s of Some q \<Rightarrow> Inr q | None \<Rightarrow> float_other L s)"

text \<open>\<open>[float(n) for n in nums]\<close>: the first conversion that raises ends the comprehension.\<close>

fun float_each :: "pylib \<Rightarrow> string list \<Rightarrow> exn + rat list" where
  "float_each L [] = Inr []"
| "float_each L (n # ns) =
     (case py_float L n of
        Inl e \<Rightarrow> Inl e
      | Inr q \<Rightarrow> (case float_each L ns of Inl e \<Rightarrow> Inl e | Inr qs \<Rightarrow> Inr (q # qs)))"

definition extract_numbers_from_text :: "pylib \<Rightarrow> string \<Rightarrow> exn + rat list" where
  "extract_numbers_from_text L text = float_each L (re_findall number_pattern text)"

section \<open>Library functions used by the handlers\<close>

text \<open>\<open>statistics.mean\<close> and \<open>statistics.median\<close>, which raise on empty data.\<close>

definition mean :: "rat list \<Rightarrow> exn + rat" where
  "mean xs = (if xs = [] then Inl StatisticsError else Inr (sum_list xs / of_nat (length xs)))"

definition median :: "rat list \<Rightarrow> exn + rat" where
  "median xs =
     (let d = sort xs; n = length d in
      if n = 0 then Inl StatisticsError
      else if n mod 2 = 1 then Inr (d ! (n div 2))
      else Inr ((d ! (n div 2 - 1) + d ! (n div 2)) / 2))"

text \<open>\<open>str\<close> of a natural number.\<close>

function str_nat :: "nat \<Rightarrow> string" where
  "str_nat n = (if n < 10 then [char_of (48 + n)] else str_nat (n div 10) @ [char_of (48 + n mod 10)])"
  by pat_completeness auto
termination
  by (relation "measure id") auto

definition str_int :: "int \<Rightarrow> string" where
  "str_int i = (if i < 0 then ''-'' @ str_nat (nat (- i)) else str_nat (nat i))"

text \<open>
  \<open>repr\<close> of a float: a non-zero integral value up to \<open>2^53\<close> in magnitude prints as its
  digits followed by \<open>.0\<close>; any other value is the environment's \<open>repr_other\<close>.
\<close>

definition float_repr :: "pylib \<Rightarrow> rat \<Rightarrow> string" where
  "float_repr L x =
     (if of_int \<lfloor>x\<rfloor> = x \<and> x \<noteq> 0 \<and> \<bar>x\<bar> \<le> 9007199254740992 then str_int \<lfloor>x\<rfloor> @ ''.0''
      else repr_other L x)"

text \<open>
  \<open>csv.writer\<close> with the default dialect: fields joined by commas, a field holding a
  comma, a double quote, a carriage return or a line feed is quoted with its quotes
  doubled, and every row ends with carriage return and line feed.
\<close>

definition needs_quote :: "string \<Rightarrow> bool" where
  "needs_quote f = list_ex (\<lambda>c. c = CHR '','' \<or> c = CHR 0x22 \<or> c = CHR 0x0D \<or> c = CHR 0x0A) f"

definition csv_field :: "string \<Rightarrow> string" where
  "csv_field f =
     (if needs_quote f then [CHR 0x22] @ replace_char (CHR 0x22) [CHR 0x22, CHR 0x22] f @ [CHR 0x22]
      else f)"

fun join_comma :: "string list \<Rightarrow> string" where
  "join_comma [] = []"
| "join_comma [f] = f"
| "join_comma (f # g # fs) = f @ '','' @ join_comma (g # fs)"

definition writerow :: "string list \<Rightarrow> string" where
  "writerow row = join_comma (map csv_field row) @ [CHR 0x0D, CHR 0x0A]"

section \<open>Handlers\<close>

text \<open>
  A handler returns a dictionary, modelled as the list of its items in the order they
  are written, or raises. A value is a string, a number of the evaluator or of the
  statistics, or the float of a conversion.
\<close>

datatype field = S string | N pyval | D double

type_synonym result = "(string \<times> field) list"

text \<open>
  \<open>re.sub(pattern, "", text)\<close>: every match is removed, the scan resuming where the
  match ended.
\<close>

function sub_from :: "re \<Rightarrow> string \<Rightarrow> string \<Rightarrow> string" where
  "sub_from r b [] = []"
| "sub_from r b (c # cs) =
     (case ms r (b, c # cs) of
        [] \<Rightarrow> c # sub_from r (c # b) cs
      | q # _ \<Rightarrow>
          (if length (snd q) < length (c # cs) then sub_from r (fst q) (snd q)
           else c # sub_from r (c # b) cs))"
  by pat_completeness auto
termination
  by (relation "measure (\<lambda>(r, b, a). length a)") auto

definition re_sub_empty :: "re \<Rightarrow> string \<Rightarrow> string" where
  "re_sub_empty r text = sub_from r [] text"

text \<open>The pattern \<open>^(calculate|what is|evaluate)\s*\<close>.\<close>

definition trigger_pattern :: re where
  "trigger_pattern =
     Seq Bol (Seq (Alt (lit ''calculate'') (Alt (lit ''what is'') (lit ''evaluate'')))
                  (Star (Cls is_space)))"

text \<open>The record built from the evaluator's value; its exception passes through.\<close>

fun calculate_record :: "exn + pyval \<Rightarrow> exn + result" where
  "calculate_record (Inl e) = Inl e"
| "calculate_record (Inr v) =
     Inr [(''status'', S ''ok''), (''intent'', S ''calculate''), (''result'', N v)]"

definition handle_calculate :: "pylib \<Rightarrow> string \<Rightarrow> exn + result" where
  "handle_calculate L text =
     (let t = strip (re_sub_empty trigger_pattern text);
          t = replace_char (CHR ''^'') ''**'' t
      in calculate_record (snd (safe_eval L t)))"

text \<open>
  The pattern \<open>(-?\d+\.?\d*)\s*([a-zA-Z]+)\s*(?:to|in)\s*([a-zA-Z]+)\<close> as its seven
  pieces; the groups are pieces 0, 2 and 6. \<open>float(value)\<close> is the float nearest to the
  decimal.
\<close>

definition convert_pieces :: "re list" where
  "convert_pieces =
     [number_pattern, Star (Cls is_space), Plus (Cls is_ascii_letter), Star (Cls is_space),
      Alt (lit ''to'') (lit ''in''), Star (Cls is_space), Plus (Cls is_ascii_letter)]"

definition handle_convert :: "pylib \<Rightarrow> string \<Rightarrow> exn + result" where
  "handle_convert L text =
     (case re_search convert_pieces text of
        None \<Rightarrow>
          Inr [(''status'', S ''error''), (''intent'', S ''convert''),
               (''error'', S ''Invalid conversion format'')]
      | Some (groups, e) \<Rightarrow>
          (let v = groups ! 0; from_unit = groups ! 2; to_unit = groups ! 6 in
           case py_float L v of
             Inl e \<Rightarrow> Inl e
           | Inr q \<Rightarrow>
               (case convert_units (round_double q) from_unit to_unit of
                  Inl e \<Rightarrow> Inl e
                | Inr y \<Rightarrow>
                    Inr [(''status'', S ''ok''), (''intent'', S ''convert''),
                         (''result'', D y), (''from'', S from_unit), (''to'', S to_unit)])))"

definition handle_stats :: "pylib \<Rightarrow> string \<Rightarrow> exn + result" where
  "handle_stats L text =
     (case extract_numbers_from_text L text of
        Inl e \<Rightarrow> Inl e
      | Inr nums \<Rightarrow>
          (if nums = [] then
             Inr [(''status'', S ''error''), (''intent'', S ''stats''), (''error'', S ''No numbers found'')]
           else if contains ''mean'' text \<or> contains ''average'' text then
             (case mean nums of
                Inl e \<Rightarrow> Inl e
              | Inr m \<Rightarrow>
                  Inr [(''status'', S ''ok''), (''intent'', S ''stats''), (''operation'', S ''mean''),
                       (''result'', N (PFloat m))])
           else if contains ''median'' text then
             (case median nums of
                Inl e \<Rightarrow> Inl e
              | Inr m \<Rightarrow>
                  Inr [(''status'', S ''ok''), (''intent'', S ''stats''), (''operation'', S ''median''),
                       (''result'', N (PFloat m))])
           else
             Inr [(''status'', S ''error''), (''intent'', S ''stats''),
                  (''error'', S ''No valid operation found'')]))"

text \<open>The rows written for \<open>enumerate(nums, start=i)\<close>.\<close>

fun csv_rows :: "pylib \<Rightarrow> nat \<Rightarrow> rat list \<Rightarrow> string" where
  "csv_rows L i [] = []"
| "csv_rows L i (v # vs) = writerow [str_nat i, float_repr L v] @ csv_rows L (Suc i) vs"

definition handle_generate_csv :: "pylib \<Rightarrow> string \<Rightarrow> exn + result" where
  "handle_generate_csv L text =
     (case extract_numbers_from_text L text of
        Inl e \<Rightarrow> Inl e
      | Inr nums \<Rightarrow>
          (if nums = [] then
             Inr [(''status'', S ''error''), (''intent'', S ''generate_csv''),
                  (''error'', S ''No numbers found'')]
           else
             Inr [(''status'', S ''ok''), (''intent'', S ''generate_csv''),
                  (''csv'', S (writerow [''index'', ''value''] @ csv_rows L 1 nums))]))"

definition handle_unknown :: "string \<Rightarrow> exn + result" where
  "handle_unknown text =
     Inr [(''status'', S ''error''), (''intent'', S ''unknown''),
          (''error'', S (''Sorry, I couldn'' @ [CHR 0x27] @ ''t understand your request.''))]"

section \<open>Dispatcher\<close>

definition INTENT_HANDLERS :: "pylib \<Rightarrow> string \<rightharpoonup> (string \<Rightarrow> exn + result)" where
  "INTENT_HANDLERS L =
     [''calculate'' \<mapsto> handle_calculate L,
      ''convert'' \<mapsto> handle_convert L,
      ''stats'' \<mapsto> handle_stats L,
      ''generate_csv'' \<mapsto> handle_generate_csv L,
      ''unknown'' \<mapsto> handle_unknown]"

definition agent_process :: "pylib \<Rightarrow> string \<Rightarrow> exn + result" where
  "agent_process L text =
     (let intent = classify_intent text;
          handler = (case INTENT_HANDLERS L intent of Some h \<Rightarrow> h | None \<Rightarrow> handle_unknown)
      in handler text)"

section \<open>An environment for closed examples\<close>

text \<open>
  The theorems below hold for every library environment. Where an example has to be a
  closed term it is stated in \<open>bare\<close>: the \<open>math\<close> module is empty and every library
  call outside the modelled part raises.
\<close>

definition bare :: pylib where
  "bare = \<lparr> math_dir = [],
            math_attr = (\<lambda>k args. Inl (OtherError ''no math module'')),
            builtin = (\<lambda>k args. Inl (OtherError ''no builtins'')),
            pow_other = (\<lambda>a b. Inl (OtherError ''no pow'')),
            parse_other = (\<lambda>s. Inl SyntaxError),
            float_other = (\<lambda>s. Inl (ValueError ''could not convert string to float'')),
            repr_other = (\<lambda>x. ''?'') \<rparr>"

text \<open>Whether something the evaluator invoked is an entry of a whitelist.\<close>

fun whitelisted :: "pylib \<Rightarrow> invoked \<Rightarrow> bool" where
  "whitelisted L (InvOp opr) = (ALLOWED_OPERATORS L opr \<noteq> None)"
| "whitelisted L (InvName f) = (ALLOWED_NAMES L f \<noteq> None)"

text \<open>\<open>n\<close> unary plus signs around an expression.\<close>

fun nest_plus :: "nat \<Rightarrow> expr \<Rightarrow> expr" where
  "nest_plus 0 e = e"
| "nest_plus (Suc n) e = UnaryOp UAdd (nest_plus n e)"

fun depth :: "expr \<Rightarrow> nat" where
  "depth (Attribute e a) = Suc (depth e)"
| "depth (BinOp l opr r) = Suc (max (depth l) (depth r))"
| "depth (UnaryOp opr e) = Suc (depth e)"
| "depth (Call f as) = Suc (max (depth f) (fold max (map depth as) 0))"
| "depth (Expression e) = Suc (depth e)"
| "depth e = 0"

section \<open>Nodes reached by an evaluation\<close>

text \<open>
  \<open>reached L e n\<close>: evaluating \<open>e\<close> comes to evaluate its subexpression \<open>n\<close>. An operator
  is looked up before its operands are evaluated, the left operand before the right one;
  a function name is looked up before the arguments, which are evaluated from left to
  right; an operand or argument is evaluated only when those before it have returned.
\<close>

fun reached :: "pylib \<Rightarrow> expr \<Rightarrow> expr \<Rightarrow> bool"
  and reached_args :: "pylib \<Rightarrow> expr list \<Rightarrow> expr \<Rightarrow> bool" where
  "reached L (BinOp l opr r) n =
     (n = BinOp l opr r
      \<or> ALLOWED_OPERATORS L opr \<noteq> None
        \<and> (reached L l n \<or> (case snd (eval_node L l) of Inl e \<Rightarrow> False | Inr a \<Rightarrow> reached L r n)))"
| "reached L (UnaryOp opr x) n =
     (n = UnaryOp opr x \<or> ALLOWED_OPERATORS L opr \<noteq> None \<and> reached L x n)"
| "reached L (Call (Name func) args) n =
     (n = Call (Name func) args \<or> ALLOWED_NAMES L func \<noteq> None \<and> reached_args L args n)"
| "reached L (Expression body) n = (n = Expression body \<or> reached L body n)"
| "reached L e n = (n = e)"
| "reached_args L [] n = False"
| "reached_args L (a # as) n =
     (reached L a n \<or> (case snd (eval_node L a) of Inl e \<Rightarrow> False | Inr v \<Rightarrow> reached_args L as n))"

section \<open>Languages and keywords\<close>

text \<open>
  The words an expression can read, for stating what the matcher finds. The anchors
  read nothing.
\<close>

inductive_set star :: "string set \<Rightarrow> string set" for A :: "string set" where
  star_nil: "[] \<in> star A"
| star_app: "u \<in> A \<Longrightarrow> v \<in> star A \<Longrightarrow> u @ v \<in> star A"

primrec lang :: "re \<Rightarrow> string set" where
  "lang Eps = {[]}"
| "lang (Chr c) = {[c]}"
| "lang (Cls P) = {[c] | c. P c}"
| "lang (Seq r s) = {u @ v | u v. u \<in> lang r \<and> v \<in> lang s}"
| "lang (Alt r s) = lang r \<union> lang s"
| "lang (Opt r) = insert [] (lang r)"
| "lang (Star r) = star (lang r)"
| "lang WordB = {[]}"
| "lang Bol = {[]}"

text \<open>From \<open>p\<close> the position \<open>q\<close> is reached by reading a word of \<open>A\<close>.\<close>

definition reaches :: "string set \<Rightarrow> pos \<Rightarrow> pos \<Rightarrow> bool" where
  "reaches A p q = (\<exists>m \<in> A. snd p = m @ snd q \<and> fst q = rev m @ fst p)"

text \<open>
  One of the keywords occurs in the text at a word boundary: at the start, or after a
  character that is not a word character. This is what a search for \<open>\b(k1|k2|...)\<close>
  decides when every keyword starts with a word character.
\<close>

definition keyword_at :: "string list \<Rightarrow> string \<Rightarrow> bool" where
  "keyword_at kws t = (\<exists>u w v. t = u @ w @ v \<and> w \<in> set kws \<and> (u = [] \<or> \<not> is_word (last u)))"

text \<open>The alternatives of the three patterns of \<open>classify_intent\<close>, written out.\<close>

definition convert_keywords :: "string list" where
  "convert_keywords = [''convert'', ''to cm'', ''to m'', ''to kg'', ''to lb'']"

definition stats_keywords :: "string list" where
  "stats_keywords = [''mean'', ''median'', ''average'']"

definition csv_keywords :: "string list" where
  "csv_keywords = [''csv'', ''spreadsheet'', ''save'']"

text \<open>The alternatives of the pattern of \<open>handle_calculate\<close>.\<close>

definition triggers :: "string list" where
  "triggers = [''calculate'', ''what is'', ''evaluate'']"

section \<open>Evaluation of closed terms\<close>

lemmas text_defs =
  code_def is_space_def is_digit_def is_ascii_letter_def is_word_def lower_char_def lower_def
  strip_def replace_char_def

lemmas regex_defs =
  Plus_def lit_def between_def re_search_def re_findall_def re_sub_empty_def

lemmas classify_defs =
  classify_intent_def convert_pattern_def stats_pattern_def csv_pattern_def calc_tokens_def

lemmas parse_defs =
  is_ident_start_def is_ident_char_def is_str_char_def py_keywords_def digit_val_def
  nat_of_digits_def decimal_def ends_token_def push_def parse_fragment_def ast_parse_body_def
  safe_eval_def

lemmas handler_defs =
  number_pattern_def unsigned_decimal_def py_float_def extract_numbers_from_text_def
  mean_def median_def str_int_def float_repr_def needs_quote_def csv_field_def writerow_def
  trigger_pattern_def handle_calculate_def convert_pieces_def handle_convert_def
  handle_stats_def handle_generate_csv_def handle_unknown_def INTENT_HANDLERS_def
  agent_process_def UNIT_MAP_def convert_units_def

lemmas char_eval = char_of_eq_iff eq_commute [of _ "char_of _"]

lemmas eval_defs =
  handler_defs classify_defs parse_defs regex_defs text_defs char_eval

section \<open>Rounding to binary64\<close>

text \<open>
  The error of rounding is at most half the spacing: a relative \<open>2^-53\<close> from
  \<open>2^-1022\<close> on, an absolute \<open>2^-1075\<close> below. Every finite result is a multiple of
  \<open>2^-1074\<close>. An integer of at most 53 bits times a power of two is a float. From
  \<open>2^1024\<close> on, the result is infinite.
\<close>

lemma round_half_even_err: "\<bar>of_int (round_half_even t) - t\<bar> \<le> 1 / 2"
proof -
  have "of_int \<lfloor>t\<rfloor> \<le> t" "t < of_int \<lfloor>t\<rfloor> + 1" by linarith+
  then show ?thesis by (auto simp: round_half_even_def Let_def)
qed

lemma spacing_pos: "0 < spacing t"
  by (simp add: spacing_def)

lemma spacing_small: "\<bar>t\<bar> < 2 ^ 53 \<Longrightarrow> spacing t = 1"
proof -
  assume a: "\<bar>t\<bar> < 2 ^ 53"
  have "\<lfloor>\<bar>t\<bar>\<rfloor> < 2 ^ 53" using a by (simp add: floor_less_iff)
  then have "nat \<lfloor>\<bar>t\<bar>\<rfloor> < 2 ^ 53" by (simp add: nat_less_iff)
  then have "floorlog 2 (nat \<lfloor>\<bar>t\<bar>\<rfloor>) \<le> 53" by (intro floorlog_leI) auto
  then show ?thesis by (simp add: spacing_def)
qed

lemma spacing_upper:
  assumes "\<bar>t\<bar> < 2 ^ w" "53 \<le> w"
  shows "spacing t \<le> 2 ^ (w - 53)"
proof -
  have "\<lfloor>\<bar>t\<bar>\<rfloor> < 2 ^ w" using assms(1) by (simp add: floor_less_iff)
  then have "nat \<lfloor>\<bar>t\<bar>\<rfloor> < 2 ^ w" by (simp add: nat_less_iff)
  then have "floorlog 2 (nat \<lfloor>\<bar>t\<bar>\<rfloor>) \<le> w" by (intro floorlog_leI) auto
  then show ?thesis unfolding spacing_def by (intro power_increasing) auto
qed

lemma spacing_normal:
  assumes "2 ^ 52 \<le> \<bar>t\<bar>"
  shows "of_nat (spacing t) * 2 ^ 52 \<le> \<bar>t\<bar>"
proof -
  let ?n = "nat \<lfloor>\<bar>t\<bar>\<rfloor>"
  let ?b = "floorlog 2 ?n"
  have "(2::int) ^ 52 \<le> \<lfloor>\<bar>t\<bar>\<rfloor>" using assms by (simp add: le_floor_iff)
  then have n: "2 ^ 52 \<le> ?n" by (simp add: le_nat_iff)
  then have pos: "0 < ?n" by (metis less_le_trans zero_less_numeral zero_less_power)
  from n have b: "53 \<le> ?b" using floorlog_ge_SucI [of 2 52 ?n] by simp
  have le: "2 ^ (?b - 1) \<le> ?n" using floorlog_bounds [of ?n 2] pos by simp
  have "?b - 1 = (?b - 53) + 52" using b by simp
  then have eq: "(2::nat) ^ (?b - 1) = 2 ^ (?b - 53) * 2 ^ 52"
    by (simp only: power_add)
  have "spacing t * 2 ^ 52 = 2 ^ (?b - 1)" unfolding spacing_def by (rule eq [symmetric])
  with le have "spacing t * 2 ^ 52 \<le> ?n" by (simp only:)
  then have "(of_nat (spacing t * 2 ^ 52) :: rat) \<le> of_nat ?n" by (simp only: of_nat_le_iff)
  also have "\<dots> \<le> \<bar>t\<bar>" by simp
  finally show ?thesis by (simp only: of_nat_mult of_nat_power of_nat_numeral)
qed

lemma nearest_err: "\<bar>of_int (nearest t) - t\<bar> \<le> of_nat (spacing t) / 2"
proof -
  let ?s = "of_nat (spacing t) :: rat"
  have s: "0 < ?s" using spacing_pos [of t] by simp
  have "of_int (nearest t) - t = (of_int (round_half_even (t / ?s)) - t / ?s) * ?s"
    using s by (simp add: nearest_def algebra_simps)
  then have "\<bar>of_int (nearest t) - t\<bar> = \<bar>of_int (round_half_even (t / ?s)) - t / ?s\<bar> * ?s"
    using s by (simp add: abs_mult)
  also have "\<dots> \<le> (1 / 2) * ?s"
    using s round_half_even_err [of "t / ?s"] by (intro mult_right_mono) auto
  finally show ?thesis by simp
qed

lemma nearest_small: "\<bar>t\<bar> < 2 ^ 53 \<Longrightarrow> \<bar>of_int (nearest t) - t\<bar> \<le> 1 / 2"
  using nearest_err [of t] spacing_small [of t] by simp

lemma nearest_normal:
  assumes "2 ^ 52 \<le> \<bar>t\<bar>"
  shows "\<bar>of_int (nearest t) - t\<bar> \<le> \<bar>t\<bar> / 2 ^ 53"
proof -
  have "of_nat (spacing t) / 2 \<le> (\<bar>t\<bar> / 2 ^ 52) / 2"
    using spacing_normal [OF assms] by (simp add: field_simps)
  also have "\<dots> = \<bar>t\<bar> / 2 ^ 53" by simp
  finally show ?thesis using nearest_err [of t] by linarith
qed

lemma nearest_bound:
  assumes "\<bar>t\<bar> \<le> 2 ^ 2098 - 2 ^ 2045"
  shows "\<bar>nearest t\<bar> < 2 ^ 2098"
proof -
  define A :: rat where "A = 2 ^ 2098"
  define B :: rat where "B = 2 ^ 2045"
  have B: "0 < B" by (simp add: B_def)
  have t: "\<bar>t\<bar> \<le> A - B" using assms by (simp only: A_def B_def)
  have "\<bar>t\<bar> < A" using t B by linarith
  then have "\<bar>t\<bar> < 2 ^ 2098" by (simp only: A_def)
  then have "spacing t \<le> 2 ^ (2098 - 53)" by (intro spacing_upper) auto
  then have "spacing t \<le> 2 ^ 2045" by simp
  then have "(of_nat (spacing t) :: rat) \<le> of_nat (2 ^ 2045)" by (simp only: of_nat_le_iff)
  then have s: "(of_nat (spacing t) :: rat) \<le> B" by (simp only: B_def of_nat_power of_nat_numeral)
  from nearest_err [of t] s t B have "\<bar>(of_int (nearest t) :: rat)\<bar> < A" by linarith
  then have "(of_int \<bar>nearest t\<bar> :: rat) < of_int (2 ^ 2098)"
    by (simp only: A_def of_int_abs of_int_power of_int_numeral)
  then show ?thesis by (simp only: of_int_less_iff)
qed

lemma scale_normal:
  assumes "1 / 2 ^ 1022 \<le> \<bar>q :: rat\<bar>"
  shows "2 ^ 52 \<le> \<bar>q * 2 ^ 1074\<bar>"
proof -
  define a :: rat where "a = 2 ^ 1022"
  define b :: rat where "b = 2 ^ 52"
  have a: "0 < a" and b: "0 < b" by (simp_all add: a_def b_def)
  have "(2::rat) ^ 1074 = 2 ^ (1022 + 52)" by simp
  then have P: "(2::rat) ^ 1074 = a * b" by (simp only: power_add a_def b_def)
  from assms have "1 / a \<le> \<bar>q\<bar>" by (simp only: a_def)
  then have "1 \<le> \<bar>q\<bar> * a" using a by (simp add: field_simps)
  then have "1 * b \<le> (\<bar>q\<bar> * a) * b" using b by (intro mult_right_mono) auto
  then have "b \<le> \<bar>q * (a * b)\<bar>" using a b by (simp add: abs_mult mult.assoc)
  then show ?thesis by (simp only: P b_def)
qed

lemma scale_tiny:
  assumes "\<bar>q :: rat\<bar> < 1 / 2 ^ 1022"
  shows "\<bar>q * 2 ^ 1074\<bar> < 2 ^ 52"
proof -
  define a :: rat where "a = 2 ^ 1022"
  define b :: rat where "b = 2 ^ 52"
  have a: "0 < a" and b: "0 < b" by (simp_all add: a_def b_def)
  have "(2::rat) ^ 1074 = 2 ^ (1022 + 52)" by simp
  then have P: "(2::rat) ^ 1074 = a * b" by (simp only: power_add a_def b_def)
  from assms have "\<bar>q\<bar> < 1 / a" by (simp only: a_def)
  then have "\<bar>q\<bar> * a < 1" using a by (simp add: field_simps)
  then have "(\<bar>q\<bar> * a) * b < 1 * b" using b by (intro mult_strict_right_mono) auto
  then have "\<bar>q * (a * b)\<bar> < b" using a b by (simp add: abs_mult mult.assoc)
  then show ?thesis by (simp only: P b_def)
qed

lemma scale_max:
  assumes "\<bar>q :: rat\<bar> \<le> 2 ^ 1024 - 2 ^ 971"
  shows "\<bar>q * 2 ^ 1074\<bar> \<le> 2 ^ 2098 - 2 ^ 2045"
proof -
  define P :: rat where "P = 2 ^ 1074"
  have P: "0 < P" by (simp add: P_def)
  have "(2::rat) ^ 2098 = 2 ^ (1024 + 1074)" "(2::rat) ^ 2045 = 2 ^ (971 + 1074)" by simp_all
  then have e: "(2::rat) ^ 2098 = 2 ^ 1024 * P" "(2::rat) ^ 2045 = 2 ^ 971 * P"
    by (simp_all only: power_add P_def)
  from assms have "\<bar>q\<bar> * P \<le> (2 ^ 1024 - 2 ^ 971) * P"
    using P by (intro mult_right_mono) auto
  then have "\<bar>q * P\<bar> \<le> 2 ^ 1024 * P - 2 ^ 971 * P"
    using P by (simp add: abs_mult left_diff_distrib)
  then show ?thesis by (simp only: e P_def)
qed

lemma round_double_fin:
  assumes "\<bar>q\<bar> \<le> 2 ^ 1024 - 2 ^ 971"
  shows "round_double q = Fin (of_int (nearest (q * 2 ^ 1074)) / 2 ^ 1074)"
proof -
  have "\<bar>nearest (q * 2 ^ 1074)\<bar> < 2 ^ 2098" by (rule nearest_bound [OF scale_max [OF assms]])
  then have "\<not> 2 ^ 2098 \<le> \<bar>nearest (q * 2 ^ 1074)\<bar>" by (simp only: not_le)
  then show ?thesis unfolding round_double_def Let_def by (simp only: if_False)
qed

lemma unscale:
  assumes "\<bar>of_int k - q * 2 ^ 1074\<bar> \<le> (e :: rat)"
  shows "\<bar>of_int k / 2 ^ 1074 - q\<bar> \<le> e / 2 ^ 1074"
proof -
  define P :: rat where "P = 2 ^ 1074"
  have P: "0 < P" by (simp add: P_def)
  have "of_int k / P - q = (of_int k - q * P) / P" using P by (simp add: field_simps)
  then have "\<bar>of_int k / P - q\<bar> = \<bar>of_int k - q * P\<bar> / P" using P by (simp add: abs_divide)
  also have "\<dots> \<le> e / P" using assms P unfolding P_def [symmetric] by (intro divide_right_mono) auto
  finally show ?thesis by (simp only: P_def)
qed

lemma round_double_normal:
  assumes "1 / 2 ^ 1022 \<le> \<bar>q\<bar>" "\<bar>q\<bar> \<le> 2 ^ 1024 - 2 ^ 971"
  shows "\<exists>k. round_double q = Fin (of_int k / 2 ^ 1074)
           \<and> \<bar>of_int k / 2 ^ 1074 - q\<bar> \<le> \<bar>q\<bar> / 2 ^ 53"
proof -
  define P :: rat where "P = 2 ^ 1074"
  have P: "0 < P" by (simp add: P_def)
  let ?k = "nearest (q * 2 ^ 1074)"
  have "\<bar>of_int ?k - q * 2 ^ 1074\<bar> \<le> \<bar>q * 2 ^ 1074\<bar> / 2 ^ 53"
    by (rule nearest_normal [OF scale_normal [OF assms(1)]])
  then have "\<bar>of_int ?k / 2 ^ 1074 - q\<bar> \<le> (\<bar>q * 2 ^ 1074\<bar> / 2 ^ 53) / 2 ^ 1074"
    by (rule unscale)
  also have "(\<bar>q * 2 ^ 1074\<bar> / 2 ^ 53) / 2 ^ 1074 = \<bar>q\<bar> / 2 ^ 53"
    unfolding P_def [symmetric] using P by (simp add: abs_mult)
  finally show ?thesis using round_double_fin [OF assms(2)] by blast
qed

lemma round_double_tiny:
  assumes "\<bar>q\<bar> < 1 / 2 ^ 1022"
  shows "\<exists>k. round_double q = Fin (of_int k / 2 ^ 1074)
           \<and> \<bar>of_int k / 2 ^ 1074 - q\<bar> \<le> 1 / 2 ^ 1075"
proof -
  let ?k = "nearest (q * 2 ^ 1074)"
  have "\<bar>q * 2 ^ 1074\<bar> < 2 ^ 52" by (rule scale_tiny [OF assms])
  then have "\<bar>q * 2 ^ 1074\<bar> < 2 ^ 53" by simp
  then have "\<bar>of_int ?k - q * 2 ^ 1074\<bar> \<le> 1 / 2" by (rule nearest_small)
  then have "\<bar>of_int ?k / 2 ^ 1074 - q\<bar> \<le> (1 / 2) / 2 ^ 1074" by (rule unscale)
  also have "((1::rat) / 2) / 2 ^ 1074 = 1 / 2 ^ 1075" by simp
  finally have e: "\<bar>of_int ?k / 2 ^ 1074 - q\<bar> \<le> 1 / 2 ^ 1075" .
  have "\<bar>q\<bar> \<le> 2 ^ 1024 - 2 ^ 971" using assms by simp
  from round_double_fin [OF this] e show ?thesis by blast
qed

lemma round_trip_core:
  fixes x c :: rat
  assumes c: "45 / 100 \<le> c" "c \<le> 46 / 100"
    and kx: "x = of_int kx / 2 ^ 1074"
    and bound: "\<bar>x\<bar> \<le> 8 * 10 ^ 307"
  shows "\<exists>y z. round_double (x / c) = Fin y \<and> round_double (y * c) = Fin z
           \<and> \<bar>z - x\<bar> \<le> \<bar>x\<bar> / 10 ^ 9"
proof -
  define M :: rat where "M = 2 ^ 1024 - 2 ^ 971"
  define m :: rat where "m = 1 / 2 ^ 1022"
  define u :: rat where "u = 1 / 2 ^ 1075"
  define eps :: rat where "eps = 1 / 2 ^ 53"
  define P :: rat where "P = 2 ^ 1074"
  define X :: rat where "X = 8 * 10 ^ 307"
  have cpos: "0 < c" using c by simp
  have eps: "0 < eps" "4 * eps \<le> 1 / 10 ^ 9" "eps \<le> 1" by (simp_all add: eps_def)
  have u: "0 < u" "u = m * eps" "2 * u = 1 / P" "u < m"
    by (simp_all add: u_def m_def eps_def P_def)
  have P: "0 < P" by (simp add: P_def)
  have X: "X * (20 / 9) \<le> M" "0 \<le> X" by (simp_all add: X_def M_def)
  have xX: "\<bar>x\<bar> \<le> X" using bound by (simp only: X_def)
  have xc: "\<bar>x / c\<bar> = \<bar>x\<bar> / c" using cpos by (simp add: abs_divide)
  have "\<bar>x\<bar> / c \<le> \<bar>x\<bar> / (45 / 100)"
    using c(1) by (intro divide_left_mono) auto
  also have "\<bar>x\<bar> / (45 / 100) = \<bar>x\<bar> * (20 / 9)" by simp
  finally have xc3: "\<bar>x / c\<bar> \<le> \<bar>x\<bar> * (20 / 9)" by (simp only: xc)
  then have xcM: "\<bar>x / c\<bar> \<le> M" using xX X by linarith
  show ?thesis
  proof (cases "m \<le> \<bar>x / c\<bar>")
    case True
    from round_double_normal [of "x / c"] True xcM
    obtain ky where y: "round_double (x / c) = Fin (of_int ky / 2 ^ 1074)"
      and ey: "\<bar>of_int ky / 2 ^ 1074 - x / c\<bar> \<le> \<bar>x / c\<bar> / 2 ^ 53"
      unfolding m_def M_def by blast
    define y :: rat where "y = of_int ky / 2 ^ 1074"
    have ey': "\<bar>y - x / c\<bar> \<le> \<bar>x / c\<bar> * eps" using ey by (simp add: y_def eps_def)
    have "y * c - x = (y - x / c) * c" using cpos by (simp add: field_simps)
    then have "\<bar>y * c - x\<bar> = \<bar>y - x / c\<bar> * c" using cpos by (simp add: abs_mult)
    also have "\<dots> \<le> (\<bar>x / c\<bar> * eps) * c" using ey' cpos by (intro mult_right_mono) auto
    also have "\<dots> = \<bar>x\<bar> * eps" using cpos by (simp add: xc)
    finally have d1: "\<bar>y * c - x\<bar> \<le> \<bar>x\<bar> * eps" .
    have "\<bar>x\<bar> * eps \<le> \<bar>x\<bar> * 1" using eps(3) by (intro mult_left_mono) auto
    with d1 have ycx: "\<bar>y * c\<bar> \<le> \<bar>x\<bar> * 2" by linarith
    then have ycM: "\<bar>y * c\<bar> \<le> M" using xX X by linarith
    have mx: "m * (45 / 100) \<le> \<bar>x\<bar>"
    proof -
      have "m * c \<le> (\<bar>x\<bar> / c) * c" using True cpos xc by (intro mult_right_mono) auto
      then have "m * c \<le> \<bar>x\<bar>" using cpos by simp
      moreover have "m * (45 / 100) \<le> m * c" using c(1) u(1) u(4) by (intro mult_left_mono) auto
      ultimately show ?thesis by linarith
    qed
    have "\<exists>z. round_double (y * c) = Fin z \<and> \<bar>z - y * c\<bar> \<le> \<bar>x\<bar> * (3 * eps)"
    proof (cases "m \<le> \<bar>y * c\<bar>")
      case True
      from round_double_normal [of "y * c"] True ycM
      obtain kz where z: "round_double (y * c) = Fin (of_int kz / 2 ^ 1074)"
        and ez: "\<bar>of_int kz / 2 ^ 1074 - y * c\<bar> \<le> \<bar>y * c\<bar> / 2 ^ 53"
        unfolding m_def M_def by blast
      have "\<bar>y * c\<bar> / 2 ^ 53 = \<bar>y * c\<bar> * eps" by (simp add: eps_def)
      also have "\<dots> \<le> (\<bar>x\<bar> * 2) * eps" using ycx eps(1) by (intro mult_right_mono) auto
      also have "\<dots> \<le> \<bar>x\<bar> * (3 * eps)" using eps(1) by (simp add: mult_left_mono)
      finally show ?thesis using z ez by (intro exI [of _ "of_int kz / 2 ^ 1074"]) simp
    next
      case False
      then have "\<bar>y * c\<bar> < 1 / 2 ^ 1022" by (simp add: m_def)
      from round_double_tiny [OF this]
      obtain kz where z: "round_double (y * c) = Fin (of_int kz / 2 ^ 1074)"
        and ez: "\<bar>of_int kz / 2 ^ 1074 - y * c\<bar> \<le> 1 / 2 ^ 1075"
        by blast
      have "u = m * eps" by (rule u(2))
      also have "\<dots> \<le> (\<bar>x\<bar> * 3) * eps"
        using mx eps(1) u(1) u(4) by (intro mult_right_mono) auto
      finally have "u \<le> \<bar>x\<bar> * (3 * eps)" by simp
      then show ?thesis using z ez by (intro exI [of _ "of_int kz / 2 ^ 1074"]) (simp add: u_def)
    qed
    then obtain z where z: "round_double (y * c) = Fin z"
      and ez: "\<bar>z - y * c\<bar> \<le> \<bar>x\<bar> * (3 * eps)" by blast
    have "\<bar>z - x\<bar> \<le> \<bar>x\<bar> * (3 * eps) + \<bar>x\<bar> * eps" using ez d1 by linarith
    also have "\<dots> = \<bar>x\<bar> * (4 * eps)" by (simp add: algebra_simps)
    also have "\<dots> \<le> \<bar>x\<bar> * (1 / 10 ^ 9)" using eps(2) by (intro mult_left_mono) auto
    finally have "\<bar>z - x\<bar> \<le> \<bar>x\<bar> / 10 ^ 9" by simp
    with y z show ?thesis unfolding y_def by blast
  next
    case False
    then have tiny: "\<bar>x / c\<bar> < m" by simp
    then have "\<bar>x / c\<bar> < 1 / 2 ^ 1022" by (simp only: m_def)
    from round_double_tiny [OF this]
    obtain ky where y: "round_double (x / c) = Fin (of_int ky / 2 ^ 1074)"
      and ey: "\<bar>of_int ky / 2 ^ 1074 - x / c\<bar> \<le> 1 / 2 ^ 1075"
      by blast
    define y :: rat where "y = of_int ky / 2 ^ 1074"
    have ey': "\<bar>y - x / c\<bar> \<le> u" using ey by (simp only: y_def u_def)
    have "y * c - x = (y - x / c) * c" using cpos by (simp add: field_simps)
    then have "\<bar>y * c - x\<bar> = \<bar>y - x / c\<bar> * c" using cpos by (simp add: abs_mult)
    also have "\<dots> \<le> u * c" using ey' cpos by (intro mult_right_mono) auto
    also have "\<dots> \<le> u * (46 / 100)" using c(2) u(1) by (intro mult_left_mono) auto
    finally have d1: "\<bar>y * c - x\<bar> \<le> u * (46 / 100)" .
    have "\<bar>x\<bar> = \<bar>x / c\<bar> * c" using cpos by (simp add: xc)
    also have "\<dots> \<le> m * c" using tiny cpos by (intro mult_right_mono) auto
    also have "\<dots> \<le> m * (46 / 100)" using c(2) u(1) u(4) by (intro mult_left_mono) auto
    finally have "\<bar>x\<bar> \<le> m * (46 / 100)" .
    with d1 u(4) u(1) have "\<bar>y * c\<bar> < m" by linarith
    then have "\<bar>y * c\<bar> < 1 / 2 ^ 1022" by (simp only: m_def)
    from round_double_tiny [OF this]
    obtain kz where z: "round_double (y * c) = Fin (of_int kz / 2 ^ 1074)"
      and ez: "\<bar>of_int kz / 2 ^ 1074 - y * c\<bar> \<le> 1 / 2 ^ 1075"
      by blast
    have ez': "\<bar>of_int kz / P - y * c\<bar> \<le> u" using ez by (simp only: u_def P_def)
    have x: "x = of_int kx / P" using kx by (simp only: P_def)
    from d1 ez' u(1) have "\<bar>of_int kz / P - of_int kx / P\<bar> < 2 * u" unfolding x by linarith
    then have "\<bar>(of_int kz - of_int kx) / P\<bar> < 1 / P" by (simp add: u(3) diff_divide_distrib)
    then have "\<bar>of_int kz - of_int kx :: rat\<bar> < 1" using P by (simp add: abs_divide field_simps)
    then have "\<bar>(of_int (kz - kx) :: rat)\<bar> < of_int 1" by simp
    then have "\<bar>kz - kx\<bar> < 1" by (simp only: of_int_abs [symmetric] of_int_less_iff)
    then have "kz = kx" by simp
    then have "of_int kz / 2 ^ 1074 = x" using kx by simp
    with y z show ?thesis unfolding y_def by (intro exI [of _ "of_int ky / 2 ^ 1074"] exI [of _ x]) simp
  qed
qed

lemma round_half_even_int [simp]: "round_half_even (of_int i) = i"
  by (simp add: round_half_even_def)

lemma round_half_even_ge: "of_int i \<le> t \<Longrightarrow> i \<le> round_half_even t"
proof -
  assume "of_int i \<le> t"
  then have "i \<le> \<lfloor>t\<rfloor>" by (simp add: le_floor_iff)
  then show ?thesis by (auto simp: round_half_even_def Let_def)
qed

lemma nearest_exact:
  assumes "int (spacing (of_int n)) dvd n"
  shows "nearest (of_int n) = n"
proof -
  from assms obtain i where i: "n = int (spacing (of_int n)) * i" by (auto simp: dvd_def)
  have s: "(of_nat (spacing (of_int n)) :: rat) \<noteq> 0" using spacing_pos [of "of_int n"] by simp
  have "(of_int n :: rat) = of_nat (spacing (of_int n)) * of_int i"
    by (subst i) (simp only: of_int_mult of_int_of_nat_eq)
  then have "(of_int n :: rat) / of_nat (spacing (of_int n)) = of_int i" using s by (simp add: field_simps)
  then have "nearest (of_int n) = i * int (spacing (of_int n))" by (simp add: nearest_def)
  with i show ?thesis by (simp add: mult.commute)
qed

lemma spacing_scaled:
  assumes "\<bar>m\<bar> < 2 ^ 53"
  shows "int (spacing (of_int (m * 2 ^ j))) dvd m * 2 ^ j"
proof (cases "m = 0")
  case True
  then show ?thesis by simp
next
  case False
  let ?a = "nat \<bar>m\<bar>"
  have a: "0 < ?a" using False by simp
  have "?a < 2 ^ 53" using assms by (simp add: nat_less_iff)
  then have fl: "floorlog 2 ?a \<le> 53" by (intro floorlog_leI) auto
  have "\<bar>of_int (m * 2 ^ j) :: rat\<bar> = of_int (\<bar>m\<bar> * 2 ^ j)"
    by (simp add: abs_mult)
  then have "\<lfloor>\<bar>of_int (m * 2 ^ j) :: rat\<bar>\<rfloor> = \<bar>m\<bar> * 2 ^ j"
    by (simp only: floor_of_int)
  then have "nat \<lfloor>\<bar>of_int (m * 2 ^ j) :: rat\<bar>\<rfloor> = ?a * 2 ^ j"
    by (simp add: nat_mult_distrib nat_power_eq)
  then have "spacing (of_int (m * 2 ^ j)) = 2 ^ (floorlog 2 (?a * 2 ^ j) - 53)"
    by (simp only: spacing_def)
  also have "floorlog 2 (?a * 2 ^ j) = floorlog 2 ?a + j" using a by (intro floorlog_power) auto
  finally have sp: "spacing (of_int (m * 2 ^ j)) = 2 ^ (floorlog 2 ?a + j - 53)" .
  have "floorlog 2 ?a + j - 53 \<le> j" using fl by simp
  then have "(2::int) ^ (floorlog 2 ?a + j - 53) dvd 2 ^ j" by (rule le_imp_power_dvd)
  then have "(2::int) ^ (floorlog 2 ?a + j - 53) dvd m * 2 ^ j" by (rule dvd_mult)
  then show ?thesis by (simp only: sp of_nat_power of_nat_numeral)
qed

lemma round_double_exact:
  assumes "\<bar>m\<bar> < 2 ^ 53" "\<bar>m * 2 ^ j\<bar> < 2 ^ 2098"
  shows "round_double (of_int (m * 2 ^ j) / 2 ^ 1074) = Fin (of_int (m * 2 ^ j) / 2 ^ 1074)"
proof -
  have "of_int (m * 2 ^ j) / 2 ^ 1074 * 2 ^ 1074 = (of_int (m * 2 ^ j) :: rat)" by simp
  moreover have "nearest (of_int (m * 2 ^ j)) = m * 2 ^ j"
    by (rule nearest_exact [OF spacing_scaled [OF assms(1)]])
  ultimately have "nearest (of_int (m * 2 ^ j) / 2 ^ 1074 * 2 ^ 1074) = m * 2 ^ j" by (simp only:)
  moreover have "\<not> 2 ^ 2098 \<le> \<bar>m * 2 ^ j\<bar>" using assms(2) by (simp only: not_le)
  ultimately show ?thesis unfolding round_double_def Let_def by (simp only: if_False)
qed

lemma spacing_lower:
  assumes "2 ^ w \<le> \<bar>t\<bar>" "52 \<le> w"
  shows "2 ^ (w - 52) \<le> spacing t"
proof -
  let ?n = "nat \<lfloor>\<bar>t\<bar>\<rfloor>"
  have "(2::int) ^ w \<le> \<lfloor>\<bar>t\<bar>\<rfloor>" using assms(1) by (simp add: le_floor_iff)
  then have "2 ^ w \<le> ?n" by (simp add: le_nat_iff)
  then have "Suc w \<le> floorlog 2 ?n" by (intro floorlog_ge_SucI) auto
  then have "w - 52 \<le> floorlog 2 ?n - 53" using assms(2) by simp
  then show ?thesis unfolding spacing_def by (intro power_increasing) auto
qed

lemma round_double_overflow:
  assumes "2 ^ 1024 \<le> q"
  shows "round_double q = PInf"
proof -
  define t where "t = q * 2 ^ 1074"
  define s where "s = spacing t"
  have q: "0 < q" using assms by (rule less_le_trans [rotated]) simp
  have "(2::rat) ^ 2098 = 2 ^ (1024 + 1074)" by simp
  then have "(2::rat) ^ 2098 = 2 ^ 1024 * 2 ^ 1074" by (simp only: power_add)
  also have "\<dots> \<le> q * 2 ^ 1074" using assms by (intro mult_right_mono) auto
  finally have t: "2 ^ 2098 \<le> t" by (simp only: t_def)
  then have t0: "0 < t" by (rule less_le_trans [rotated]) simp
  have tabs: "\<bar>t\<bar> = t" using t0 by simp
  have "2 ^ (2098 - 52) \<le> s" unfolding s_def using t tabs by (intro spacing_lower) auto
  then have s: "2 ^ 2046 \<le> s" by simp
  have spos: "0 < (of_nat s :: rat)" using spacing_pos [of t] by (simp add: s_def)
  have "(2::rat) ^ 52 \<le> 2 ^ 2098" by (intro power_increasing) auto
  with t tabs have "2 ^ 52 \<le> \<bar>t\<bar>" by linarith
  from spacing_normal [OF this] have "of_nat s * 2 ^ 52 \<le> t" by (simp only: s_def tabs)
  then have "(of_int (2 ^ 52) :: rat) \<le> t / of_nat s" using spos by (simp add: field_simps)
  then have "2 ^ 52 \<le> round_half_even (t / of_nat s)" by (rule round_half_even_ge)
  then have a: "2 ^ 52 * int s \<le> round_half_even (t / of_nat s) * int s"
    by (rule mult_right_mono) simp
  have "int (2 ^ 2046) \<le> int s" using s by (simp only: of_nat_le_iff)
  then have "(2::int) ^ 2046 \<le> int s" by (simp only: of_nat_power of_nat_numeral)
  then have b: "(2::int) ^ 52 * 2 ^ 2046 \<le> 2 ^ 52 * int s" by (rule mult_left_mono) simp
  have "(2::int) ^ 2098 = 2 ^ (52 + 2046)" by simp
  then have c: "(2::int) ^ 2098 = 2 ^ 52 * 2 ^ 2046" by (simp only: power_add)
  have "2 ^ 2098 \<le> round_half_even (t / of_nat s) * int s"
    unfolding c by (rule order_trans [OF b a])
  then have "2 ^ 2098 \<le> nearest t" by (simp only: nearest_def s_def)
  then have "2 ^ 2098 \<le> \<bar>nearest (q * 2 ^ 1074)\<bar>" unfolding t_def by linarith
  then show ?thesis unfolding round_double_def Let_def using q by (simp only: if_True)
qed

lemma lb_in_kg_bounds: "\<exists>c. lb_in_kg = Fin c \<and> 45 / 100 \<le> c \<and> c \<le> 46 / 100"
proof -
  define c0 :: rat where "c0 = 45359237 / 100000000"
  have "1 / 2 ^ 1022 \<le> \<bar>c0\<bar>" "\<bar>c0\<bar> \<le> 2 ^ 1024 - 2 ^ 971" by (simp_all add: c0_def)
  from round_double_normal [OF this]
  obtain k where k: "round_double c0 = Fin (of_int k / 2 ^ 1074)"
    and e: "\<bar>of_int k / 2 ^ 1074 - c0\<bar> \<le> \<bar>c0\<bar> / 2 ^ 53" by blast
  have "\<bar>c0\<bar> / 2 ^ 53 \<le> 1 / 1000" by (simp add: c0_def)
  with e have "\<bar>of_int k / 2 ^ 1074 - c0\<bar> \<le> 1 / 1000" by linarith
  moreover have "45 / 100 + 1 / 1000 \<le> c0" "c0 + 1 / 1000 \<le> 46 / 100" by (simp_all add: c0_def)
  ultimately have "(45 / 100 :: rat) \<le> of_int k / 2 ^ 1074 \<and> of_int k / 2 ^ 1074 \<le> (46 / 100 :: rat)"
    by linarith
  with k show ?thesis unfolding lb_in_kg_def c0_def by blast
qed

lemma round_double_grid:
  assumes "round_double q = Fin x"
  shows "\<exists>k. x = of_int k / 2 ^ 1074"
proof (cases "2 ^ 2098 \<le> \<bar>nearest (q * 2 ^ 1074)\<bar>")
  case True
  then have "round_double q = (if 0 < q then PInf else NInf)"
    unfolding round_double_def Let_def by (simp only: if_True)
  with assms show ?thesis by (simp split: if_splits)
next
  case False
  then have "round_double q = Fin (of_int (nearest (q * 2 ^ 1074)) / 2 ^ 1074)"
    unfolding round_double_def Let_def by (simp only: if_False)
  with assms have "x = of_int (nearest (q * 2 ^ 1074)) / 2 ^ 1074" by (simp only: double.inject)
  then show ?thesis by (rule exI)
qed

lemma kg_lb_kg:
  assumes "round_double x = Fin x" "\<bar>x\<bar> \<le> 8 * 10 ^ 307"
  shows "\<exists>y z. fdiv (Fin x) lb_in_kg = Inr (Fin y) \<and> fmul (Fin y) lb_in_kg = Fin z
           \<and> \<bar>z - x\<bar> \<le> \<bar>x\<bar> / 10 ^ 9"
proof -
  from lb_in_kg_bounds obtain c where c: "lb_in_kg = Fin c" "45 / 100 \<le> c" "c \<le> 46 / 100"
    by blast
  from round_double_grid [OF assms(1)] obtain kx where kx: "x = of_int kx / 2 ^ 1074" by blast
  from round_trip_core [OF c(2) c(3) kx assms(2)]
  obtain y z where "round_double (x / c) = Fin y" "round_double (y * c) = Fin z"
    "\<bar>z - x\<bar> \<le> \<bar>x\<bar> / 10 ^ 9" by blast
  moreover have "c \<noteq> 0" using c(2) by auto
  ultimately show ?thesis unfolding c(1) by (intro exI [of _ y] exI [of _ z]) simp
qed

lemma kg_lb_overflow:
  "round_double (2 ^ 1023) = Fin (2 ^ 1023)"
  "fdiv (Fin (2 ^ 1023)) lb_in_kg = Inr PInf"
  "fmul PInf lb_in_kg = PInf"
proof -
  from lb_in_kg_bounds obtain c where c: "lb_in_kg = Fin c" "45 / 100 \<le> c" "c \<le> 46 / 100"
    by blast
  have cpos: "0 < c" using c(2) by simp
  have "(2::rat) ^ 1024 = 2 ^ 1023 * 2" by simp
  also have "\<dots> \<le> 2 ^ 1023 * (1 / c)" using c(3) cpos by (intro mult_left_mono) (auto simp: field_simps)
  finally have "2 ^ 1024 \<le> 2 ^ 1023 / c" by simp
  then have "round_double (2 ^ 1023 / c) = PInf" by (rule round_double_overflow)
  then show "fdiv (Fin (2 ^ 1023)) lb_in_kg = Inr PInf" using cpos by (simp add: c(1))
  show "fmul PInf lb_in_kg = PInf" using cpos by (simp add: c(1) signed_inf_def)
  have "\<bar>1 :: int\<bar> < 2 ^ 53" "\<bar>(1::int) * 2 ^ 2097\<bar> < 2 ^ 2098" by simp_all
  from round_double_exact [OF this]
  have "round_double (of_int (1 * 2 ^ 2097) / 2 ^ 1074) = Fin (of_int (1 * 2 ^ 2097) / 2 ^ 1074)" .
  moreover have "(of_int (1 * 2 ^ 2097) / 2 ^ 1074 :: rat) = 2 ^ 1023" by simp
  ultimately show "round_double (2 ^ 1023) = Fin (2 ^ 1023)" by (simp only:)
qed

lemma ten_is_double: "round_double 10 = Fin 10"
proof -
  have "\<bar>10 :: int\<bar> < 2 ^ 53" "\<bar>(10::int) * 2 ^ 1074\<bar> < 2 ^ 2098" by simp_all
  from round_double_exact [OF this]
  have "round_double (of_int (10 * 2 ^ 1074) / 2 ^ 1074) = Fin (of_int (10 * 2 ^ 1074) / 2 ^ 1074)" .
  moreover have "(of_int (10 * 2 ^ 1074) / 2 ^ 1074 :: rat) = 10" by simp
  ultimately show ?thesis by (simp only:)
qed

lemma convert_kg_lb: "convert_units x ''kg'' ''lb'' = fdiv x lb_in_kg"
  by (simp add: convert_units_def UNIT_MAP_def text_defs)

lemma convert_lb_kg: "convert_units x ''lb'' ''kg'' = Inr (fmul x lb_in_kg)"
  by (simp add: convert_units_def UNIT_MAP_def text_defs)

section \<open>Soundness of the matcher\<close>

text \<open>
  Every position the matcher returns is reached by reading a word of the language of
  the expression.
\<close>

lemma step_if_reaches: "q \<in> set (step_if P p) \<Longrightarrow> reaches {[c] | c. P c} p q"
  by (cases "(P, p)" rule: step_if.cases) (auto simp: reaches_def split: if_splits)

lemma reaches_seq:
  "reaches A p q \<Longrightarrow> reaches B q r \<Longrightarrow> reaches {u @ v | u v. u \<in> A \<and> v \<in> B} p r"
  unfolding reaches_def by fastforce

lemma star_iter_reaches:
  assumes f: "\<And>p q. q \<in> set (f p) \<Longrightarrow> reaches A p q"
  shows "q \<in> set (star_iter n f p) \<Longrightarrow> reaches (star A) p q"
proof (induction n arbitrary: p q)
  case 0
  then show ?case by (auto simp: reaches_def intro: star.star_nil)
next
  case (Suc n)
  from Suc.prems consider (same) "q = p"
    | (more) p' where "p' \<in> set (f p)" "q \<in> set (star_iter n f p')"
    by (auto split: if_splits)
  then show ?case
  proof cases
    case same
    then show ?thesis by (auto simp: reaches_def intro: star.star_nil)
  next
    case more
    from f [OF more(1)] Suc.IH [OF more(2)] show ?thesis
      unfolding reaches_def by (fastforce intro: star.star_app)
  qed
qed

lemma ms_reaches: "q \<in> set (ms r p) \<Longrightarrow> reaches (lang r) p q"
proof (induction r arbitrary: p q)
  case (Seq r s)
  from Seq.prems obtain p' where "p' \<in> set (ms r p)" "q \<in> set (ms s p')" by auto
  then have "reaches (lang r) p p'" "reaches (lang s) p' q"
    by (auto intro: Seq.IH)
  then show ?case using reaches_seq by fastforce
next
  case (Star r)
  then show ?case using star_iter_reaches [of "ms r" "lang r"] by auto
next
  case (Alt r s)
  from Alt.prems have "q \<in> set (ms r p) \<or> q \<in> set (ms s p)" by simp
  then show ?case using Alt.IH(1) [of q p] Alt.IH(2) [of q p] by (auto simp: reaches_def)
next
  case (Opt r)
  from Opt.prems have "q \<in> set (ms r p) \<or> q = p" by auto
  then show ?case using Opt.IH [of q p] by (auto simp: reaches_def)
qed (auto dest: step_if_reaches simp: reaches_def split: if_splits)

section \<open>Numbers found in a text\<close>

text \<open>
  Every match of the number pattern is a decimal that \<open>float\<close> accepts, so extracting the
  numbers of a text never raises.
\<close>

lemma star_cls: "w \<in> star {[c] | c. P c} \<Longrightarrow> list_all P w"
  by (induction rule: star.induct) auto

lemma not_digit_dot [simp]: "\<not> is_digit (CHR 0x2E)" "\<not> is_digit (CHR ''-'')"
  by (simp_all add: is_digit_def code_def)

lemma unsigned_decimal_digits:
  assumes "d \<noteq> []" "list_all is_digit d" "list_all is_digit f"
  shows "\<exists>q. unsigned_decimal (d @ f) = Some q"
proof -
  from assms have tw: "takeWhile is_digit (d @ f) = d @ f"
    and dw: "dropWhile is_digit (d @ f) = []"
    by (auto simp: list_all_iff)
  show ?thesis unfolding unsigned_decimal_def Let_def tw dw using assms(1) by simp
qed

lemma unsigned_decimal_point:
  assumes "d \<noteq> []" "list_all is_digit d" "list_all is_digit f"
  shows "\<exists>q. unsigned_decimal (d @ CHR 0x2E # f) = Some q"
proof -
  from assms have tw: "takeWhile is_digit (d @ CHR 0x2E # f) = d"
    and dw: "dropWhile is_digit (d @ CHR 0x2E # f) = CHR 0x2E # f"
    by (auto simp: list_all_iff takeWhile_append2 dropWhile_append2)
  show ?thesis unfolding unsigned_decimal_def Let_def tw dw using assms(1,3) by simp
qed

lemma lang_SeqD: "m \<in> lang (Seq r s) \<Longrightarrow> \<exists>u v. m = u @ v \<and> u \<in> lang r \<and> v \<in> lang s"
  by auto

lemma number_lang_shape:
  assumes "m \<in> lang number_pattern"
  shows "\<exists>s d t f. m = s @ d @ t @ f \<and> (s = [] \<or> s = [CHR ''-'']) \<and> d \<noteq> [] \<and> list_all is_digit d
           \<and> (t = [] \<or> t = [CHR 0x2E]) \<and> list_all is_digit f"
proof -
  let ?D = "Cls is_digit"
  from assms obtain s u where 1: "m = s @ u" "s \<in> lang (Opt (Chr CHR ''-''))"
    "u \<in> lang (Seq (Plus ?D) (Seq (Opt (Chr CHR 0x2E)) (Star ?D)))"
    unfolding number_pattern_def by (blast dest: lang_SeqD)
  from 1(3) obtain d v where 2: "u = d @ v" "d \<in> lang (Plus ?D)"
    "v \<in> lang (Seq (Opt (Chr CHR 0x2E)) (Star ?D))"
    by (blast dest: lang_SeqD)
  from 2(3) obtain t f where 3: "v = t @ f" "t \<in> lang (Opt (Chr CHR 0x2E))" "f \<in> lang (Star ?D)"
    by (blast dest: lang_SeqD)
  from 2(2) obtain c d' where 4: "d = [c] @ d'" "is_digit c" "d' \<in> star {[c] | c. is_digit c}"
    unfolding Plus_def by auto
  from 4 star_cls [OF 4(3)] have d: "d \<noteq> []" "list_all is_digit d" by auto
  from 3(3) have f: "list_all is_digit f" by (auto dest: star_cls)
  from 1(2) have s: "s = [] \<or> s = [CHR ''-'']" by auto
  from 3(2) have t: "t = [] \<or> t = [CHR 0x2E]" by auto
  from 1(1) 2(1) 3(1) have "m = s @ d @ t @ f" by simp
  with s d t f show ?thesis by blast
qed

lemma number_lang_float:
  assumes "m \<in> lang number_pattern"
  shows "m \<noteq> [] \<and> (\<exists>q. parse_decimal m = Some q)"
proof -
  from number_lang_shape [OF assms] obtain s d t f where m: "m = s @ d @ t @ f"
    and s: "s = [] \<or> s = [CHR ''-'']" and d: "d \<noteq> []" "list_all is_digit d"
    and t: "t = [] \<or> t = [CHR 0x2E]" and f: "list_all is_digit f"
    by blast
  from t unsigned_decimal_digits [OF d f] unsigned_decimal_point [OF d f]
  obtain q where q: "unsigned_decimal (d @ t @ f) = Some q"
    by auto
  from d obtain c d' where dc: "d = c # d'" "is_digit c" by (cases d) auto
  then have "c \<noteq> CHR ''-''" by auto
  with s m d q dc show ?thesis by auto
qed

lemma ms_progress:
  assumes "q \<in> set (ms r p)" "[] \<notin> lang r"
  shows "length (snd q) < length (snd p)"
  using ms_reaches [OF assms(1)] assms(2) by (auto simp: reaches_def)

lemma ms_between:
  assumes "q \<in> set (ms r p)"
  shows "between p q \<in> lang r"
  using ms_reaches [OF assms] by (auto simp: reaches_def between_def)

lemma findall_from_lang:
  "[] \<notin> lang r \<Longrightarrow> m \<in> set (findall_from r b a) \<Longrightarrow> m \<in> lang r"
proof (induction r b a rule: findall_from.induct)
  case (1 r b)
  have "ms r (b, []) = []"
  proof (cases "ms r (b, [])")
    case (Cons q qs)
    then have "q \<in> set (ms r (b, []))" by simp
    from ms_progress [OF this "1.prems"(1)] show ?thesis by simp
  qed simp
  with "1.prems" show ?case by simp
next
  case (2 r b c cs)
  show ?case
  proof (cases "ms r (b, c # cs)")
    case Nil
    with 2 show ?thesis by simp
  next
    case (Cons q qs)
    then have q: "q \<in> set (ms r (b, c # cs))" by simp
    from ms_progress [OF q "2.prems"(1)] have lt: "length (snd q) < length (c # cs)" by simp
    from 2 Cons lt ms_between [OF q] show ?thesis by auto
  qed
qed

lemma float_each_all:
  "\<forall>m \<in> set xs. \<exists>q. parse_decimal m = Some q \<Longrightarrow> \<exists>qs. float_each L xs = Inr qs \<and> length qs = length xs"
  by (induction xs) (auto simp: py_float_def)

lemma number_lang_nonempty: "[] \<notin> lang number_pattern"
  using number_lang_float by blast

lemma extract_numbers_total:
  "\<exists>nums. extract_numbers_from_text L text = Inr nums
      \<and> length nums = length (re_findall number_pattern text)"
  unfolding extract_numbers_from_text_def re_findall_def
  by (rule float_each_all) (blast dest: findall_from_lang [OF number_lang_nonempty] number_lang_float)

section \<open>The conversion handler\<close>

text \<open>
  The groups of a match are words of the languages of their pieces, so the first group
  is a decimal that \<open>float\<close> accepts. A registered conversion returns. The conversion
  handler then has three outcomes: the error record when the search fails, the exception
  of \<open>convert_units\<close> when the pair of units is not registered, and the record of the
  converted value otherwise.
\<close>

lemma match_parts_shape:
  "(gs, e) \<in> set (match_parts rs p) \<Longrightarrow>
     length gs = length rs \<and> (\<forall>i < length rs. gs ! i \<in> lang (rs ! i))"
proof (induction rs arbitrary: p gs e)
  case Nil
  then show ?case by simp
next
  case (Cons r rs)
  from Cons.prems obtain q gs' where q: "q \<in> set (ms r p)" and gs: "gs = between p q # gs'"
    and rest: "(gs', e) \<in> set (match_parts rs q)"
    by auto
  from Cons.IH [OF rest] ms_between [OF q] gs show ?case
    by (auto simp: nth_Cons split: nat.splits)
qed

lemma search_from_shape:
  "search_from rs b a = Some (gs, e) \<Longrightarrow>
     length gs = length rs \<and> (\<forall>i < length rs. gs ! i \<in> lang (rs ! i))"
proof (induction rs b a rule: search_from.induct)
  case (1 rs b)
  then obtain ms where "match_parts rs (b, []) = (gs, e) # ms" by (auto split: list.splits)
  then have "(gs, e) \<in> set (match_parts rs (b, []))" by simp
  then show ?case by (rule match_parts_shape)
next
  case (2 rs b c cs)
  show ?case
  proof (cases "match_parts rs (b, c # cs)")
    case Nil
    with 2 show ?thesis by simp
  next
    case (Cons m ms)
    with 2 have "(gs, e) \<in> set (match_parts rs (b, c # cs))" by simp
    then show ?thesis by (rule match_parts_shape)
  qed
qed

lemma UNIT_MAP_returns: "UNIT_MAP k = Some f \<Longrightarrow> \<exists>y. f x = Inr y"
proof -
  assume a: "UNIT_MAP k = Some f"
  from lb_in_kg_bounds obtain c where c: "lb_in_kg = Fin c" "c \<noteq> 0" by auto
  from a show ?thesis
    by (auto simp: UNIT_MAP_def c split: if_splits)
qed

lemma handle_convert_unparsed:
  "re_search convert_pieces text = None \<Longrightarrow>
     handle_convert L text =
       Inr [(''status'', S ''error''), (''intent'', S ''convert''),
            (''error'', S ''Invalid conversion format'')]"
  by (simp add: handle_convert_def)

lemma handle_convert_value:
  assumes "re_search convert_pieces text = Some (gs, p)"
  shows "\<exists>q. parse_decimal (gs ! 0) = Some q
           \<and> handle_convert L text =
               (case convert_units (round_double q) (gs ! 2) (gs ! 6) of
                  Inl e \<Rightarrow> Inl e
                | Inr y \<Rightarrow>
                    Inr [(''status'', S ''ok''), (''intent'', S ''convert''),
                         (''result'', D y), (''from'', S (gs ! 2)), (''to'', S (gs ! 6))])"
proof -
  from search_from_shape [OF assms [unfolded re_search_def]]
  have "\<forall>i < length convert_pieces. gs ! i \<in> lang (convert_pieces ! i)" by simp
  from this [rule_format, of 0]
  have "gs ! 0 \<in> lang number_pattern" by (simp add: convert_pieces_def)
  then obtain q where q: "parse_decimal (gs ! 0) = Some q"
    by (auto dest: number_lang_float)
  then have "py_float L (gs ! 0) = Inr q" by (simp add: py_float_def)
  with assms q show ?thesis by (simp add: handle_convert_def Let_def)
qed

lemma handle_convert_unregistered:
  assumes "re_search convert_pieces text = Some (gs, p)"
    and "UNIT_MAP (lower (gs ! 2), lower (gs ! 6)) = None"
  shows "handle_convert L text =
           Inl (ValueError (''No converter registered for '' @ gs ! 2 @ '' -> '' @ gs ! 6))"
  using handle_convert_value [OF assms(1), of L] assms(2)
  by (auto simp: convert_units_def Let_def)

lemma handle_convert_registered:
  assumes "re_search convert_pieces text = Some (gs, p)"
    and "UNIT_MAP (lower (gs ! 2), lower (gs ! 6)) = Some f"
  shows "\<exists>q y. parse_decimal (gs ! 0) = Some q \<and> f (round_double q) = Inr y
           \<and> handle_convert L text =
               Inr [(''status'', S ''ok''), (''intent'', S ''convert''),
                    (''result'', D y), (''from'', S (gs ! 2)), (''to'', S (gs ! 6))]"
proof -
  from handle_convert_value [OF assms(1), of L] obtain q where q: "parse_decimal (gs ! 0) = Some q"
    and h: "handle_convert L text =
               (case convert_units (round_double q) (gs ! 2) (gs ! 6) of
                  Inl e \<Rightarrow> Inl e
                | Inr y \<Rightarrow>
                    Inr [(''status'', S ''ok''), (''intent'', S ''convert''),
                         (''result'', D y), (''from'', S (gs ! 2)), (''to'', S (gs ! 6))])"
    by blast
  from UNIT_MAP_returns [OF assms(2), of "round_double q"] obtain y where y: "f (round_double q) = Inr y"
    by blast
  then have "convert_units (round_double q) (gs ! 2) (gs ! 6) = Inr y"
    using assms(2) by (simp add: convert_units_def)
  with q y h show ?thesis by simp
qed

section \<open>Handlers that always return\<close>

lemma mean_nonempty: "xs \<noteq> [] \<Longrightarrow> mean xs = Inr (sum_list xs / of_nat (length xs))"
  by (simp add: mean_def)

lemma sort_eq_Nil: "(sort xs = []) = (xs = ([] :: rat list))"
  using length_sort [of "\<lambda>x. x" xs] by (metis length_0_conv)

lemma median_nonempty:
  "xs \<noteq> [] \<Longrightarrow>
     median xs = Inr (if length xs mod 2 = 1 then sort xs ! (length xs div 2)
                      else (sort xs ! (length xs div 2 - 1) + sort xs ! (length xs div 2)) / 2)"
  by (simp add: median_def Let_def sort_eq_Nil)

lemma handle_stats_returns: "\<exists>r. handle_stats L text = Inr r"
proof -
  from extract_numbers_total obtain nums where "extract_numbers_from_text L text = Inr nums"
    by blast
  then show ?thesis
    by (auto simp: handle_stats_def mean_nonempty median_nonempty)
qed

lemma handle_generate_csv_returns: "\<exists>r. handle_generate_csv L text = Inr r"
proof -
  from extract_numbers_total obtain nums where "extract_numbers_from_text L text = Inr nums"
    by blast
  then show ?thesis
    by (auto simp: handle_generate_csv_def)
qed

lemma classify_intent_range:
  "classify_intent text \<in> {''convert'', ''stats'', ''generate_csv'', ''calculate'', ''unknown''}"
  by (simp add: classify_intent_def Let_def)

lemma handle_calculate_cases:
  "handle_calculate L text =
     (case snd (safe_eval L (replace_char (CHR ''^'') ''**''
                  (strip (re_sub_empty trigger_pattern text)))) of
        Inl e \<Rightarrow> Inl e
      | Inr v \<Rightarrow> Inr [(''status'', S ''ok''), (''intent'', S ''calculate''), (''result'', N v)])"
  by (simp add: handle_calculate_def split: sum.splits)

lemma agent_process_dispatch:
  "agent_process L text =
     (if classify_intent text = ''convert'' then handle_convert L text
      else if classify_intent text = ''stats'' then handle_stats L text
      else if classify_intent text = ''generate_csv'' then handle_generate_csv L text
      else if classify_intent text = ''calculate'' then handle_calculate L text
      else handle_unknown text)"
  using classify_intent_range [of "text"]
  by (auto simp: agent_process_def INTENT_HANDLERS_def Let_def)

section \<open>What the evaluator invokes\<close>

lemma eval_whitelisted:
  "\<forall>i \<in> set (fst (eval_node L e)). whitelisted L i"
  "\<forall>i \<in> set (fst (eval_args L es)). whitelisted L i"
  by (induction L e and L es rule: eval_node_eval_args.induct)
     (auto split: option.splits prod.splits sum.splits)

lemma safe_eval_whitelisted: "\<forall>i \<in> set (fst (safe_eval L s)). whitelisted L i"
  using eval_whitelisted(1) by (auto simp: safe_eval_def split: sum.splits)

lemma eval_call_disallowed:
  "ALLOWED_NAMES L func = None \<Longrightarrow>
     eval_node L (Call (Name func) args) = ([], Inl (ValueError (''Function '' @ func @ '' not allowed'')))"
  by simp

lemma underscore_not_allowed: "prefix ''_'' func \<Longrightarrow> ALLOWED_NAMES L func = None"
  by (auto simp: ALLOWED_NAMES_def math_names_def)

text \<open>An exception raised at a node that is reached is the exception of the whole.\<close>

lemma reached_refl: "reached L e e"
  by (cases "(L, e, e)" rule: reached.cases) simp_all

lemma reached_raises:
  "reached L e n \<Longrightarrow> snd (eval_node L n) = Inl x \<Longrightarrow> snd (eval_node L e) = Inl x"
  "reached_args L es n \<Longrightarrow> snd (eval_node L n) = Inl x \<Longrightarrow> snd (eval_args L es) = Inl x"
  by (induction L e n and L es n rule: reached_reached_args.induct)
     (auto split: option.splits prod.splits sum.splits)

section \<open>Nested unary plus\<close>

lemma tokenize_plus:
  "tokenize (replicate n (CHR ''+'') @ ''1'') = Some (replicate n TPlus @ [TNum (PInt 1)])"
proof (induction n)
  case 0
  show ?case by (simp add: parse_defs text_defs)
next
  case (Suc n)
  then show ?case by (simp add: parse_defs text_defs)
qed

lemma parse_factor_plus:
  "parse (Suc (Suc (Suc (n + k)))) NFactor (replicate n TPlus @ [TNum v]) =
     Some (nest_plus n (Num v), [])"
  by (induction n) simp_all

lemma parse_sum_plus:
  "parse (Suc (Suc (Suc (Suc (Suc (n + k)))))) NSum (replicate n TPlus @ [TNum v]) =
     Some (nest_plus n (Num v), [])"
  using parse_factor_plus [of n k v] by simp

lemma fuel_of_length: "fuel_of ts = 8 * length ts + 8"
  by (induction ts) simp_all

lemma fuel_of_plus:
  "fuel_of (replicate n TPlus @ [TNum v]) = Suc (Suc (Suc (Suc (Suc (n + (7 * n + 11))))))"
  by (simp add: fuel_of_length)

lemma parse_fragment_plus:
  assumes "n < 500"
  shows "parse_fragment (replicate n (CHR ''+'') @ ''1'') = Some (nest_plus n (Num (PInt 1)))"
proof -
  have "\<not> prefix '' '' (replicate n (CHR ''+'') @ ''1'')" by (cases n) simp_all
  moreover have "filter (\<lambda>t. t = TLPar) (replicate n TPlus @ [TNum (PInt 1)]) = []" by simp
  moreover have "parse (fuel_of (replicate n TPlus @ [TNum (PInt 1)])) NSum
      (replicate n TPlus @ [TNum (PInt 1)]) = Some (nest_plus n (Num (PInt 1)), [])"
    by (simp only: fuel_of_plus parse_sum_plus)
  ultimately show ?thesis
    using assms unfolding parse_fragment_def tokenize_plus by simp
qed

lemma eval_nest_plus: "eval_node L (nest_plus n (Num v)) = (replicate n (InvOp UAdd), Inr v)"
  by (induction n) (simp_all add: replicate_append_same)

lemma depth_nest_plus: "depth (nest_plus n (Num v)) = n"
  by (induction n) simp_all

lemma safe_eval_plus:
  "n < 500 \<Longrightarrow> safe_eval L (replicate n (CHR ''+'') @ ''1'') = (replicate n (InvOp UAdd), Inr (PInt 1))"
  by (simp add: safe_eval_def ast_parse_body_def parse_fragment_plus eval_nest_plus)

section \<open>The trigger pattern\<close>

text \<open>
  The substitution removes a trigger at the start of the text together with the blanks
  after it, and nothing else.
\<close>

lemma ms_lit:
  "ms (lit w) (b, a) = (if prefix w a then [(rev w @ b, drop (length w) a)] else [])"
proof (induction w arbitrary: b a)
  case Nil
  show ?case by (simp add: lit_def)
next
  case (Cons c w)
  have "lit (c # w) = Seq (Chr c) (lit w)" by (simp add: lit_def)
  then show ?case using Cons by (cases a) auto
qed

lemma star_iter_greedy:
  "length a \<le> n \<Longrightarrow>
     \<exists>qs. star_iter n (step_if P) (b, a) = (rev (takeWhile P a) @ b, dropWhile P a) # qs"
proof (induction n arbitrary: a b)
  case 0
  then show ?case by simp
next
  case (Suc n)
  show ?case
  proof (cases a)
    case Nil
    then show ?thesis by simp
  next
    case (Cons c cs)
    with Suc.prems have "length cs \<le> n" by simp
    from Suc.IH [OF this, of "c # b"] Cons show ?thesis by auto
  qed
qed

lemma ms_star_cls_greedy:
  "\<exists>qs. ms (Star (Cls P)) (b, a) = (rev (takeWhile P a) @ b, dropWhile P a) # qs"
proof -
  have "ms (Cls P) = step_if P" by (rule ext) simp
  then show ?thesis using star_iter_greedy [of a "length a" P b] by simp
qed

lemma sub_from_not_start: "b \<noteq> [] \<Longrightarrow> sub_from trigger_pattern b a = a"
  by (induction a arbitrary: b) (simp_all add: trigger_pattern_def)

lemma ms_trigger_hit:
  assumes "w \<in> set triggers"
  shows "\<exists>qs. ms trigger_pattern ([], w @ rest) =
           (rev (takeWhile is_space rest) @ rev w, dropWhile is_space rest) # qs"
proof -
  let ?A = "Alt (lit ''calculate'') (Alt (lit ''what is'') (lit ''evaluate''))"
  from assms have "ms ?A ([], w @ rest) = [(rev w, rest)]"
    by (auto simp: triggers_def ms_lit)
  then have "ms trigger_pattern ([], w @ rest) = ms (Star (Cls is_space)) (rev w, rest)"
    by (simp add: trigger_pattern_def)
  with ms_star_cls_greedy [of is_space "rev w" rest] show ?thesis by simp
qed

lemma re_sub_trigger_hit:
  assumes "w \<in> set triggers"
  shows "re_sub_empty trigger_pattern (w @ rest) = dropWhile is_space rest"
proof -
  from assms obtain c cs where w: "w @ rest = c # cs" "w \<noteq> []"
    by (cases w) (auto simp: triggers_def)
  from ms_trigger_hit [OF assms, of rest] obtain qs where
    q: "ms trigger_pattern ([], c # cs) =
          (rev (takeWhile is_space rest) @ rev w, dropWhile is_space rest) # qs"
    unfolding w by blast
  from w(2) have "0 < length w" by simp
  with length_dropWhile_le [of is_space rest]
  have "length (dropWhile is_space rest) < length w + length rest" by linarith
  then have lt: "length (dropWhile is_space rest) < length (c # cs)"
    unfolding w(1) [symmetric] by simp
  have "sub_from trigger_pattern [] (c # cs) =
      sub_from trigger_pattern (rev (takeWhile is_space rest) @ rev w) (dropWhile is_space rest)"
    using q lt by (simp del: ms.simps)
  also have "\<dots> = dropWhile is_space rest"
    using w(2) by (intro sub_from_not_start) simp
  finally show ?thesis by (simp only: re_sub_empty_def w(1))
qed

lemma re_sub_trigger_miss:
  assumes "\<forall>w \<in> set triggers. \<not> prefix w t"
  shows "re_sub_empty trigger_pattern t = t"
proof (cases t)
  case Nil
  then show ?thesis by (simp add: re_sub_empty_def)
next
  case (Cons c cs)
  let ?A = "Alt (lit ''calculate'') (Alt (lit ''what is'') (lit ''evaluate''))"
  from assms have "ms ?A ([], t) = []"
    by (simp add: triggers_def ms_lit)
  then have "ms trigger_pattern ([], c # cs) = []"
    unfolding Cons by (simp add: trigger_pattern_def)
  then have "sub_from trigger_pattern [] (c # cs) = c # sub_from trigger_pattern [c] cs"
    by (simp del: ms.simps)
  also have "\<dots> = c # cs" by (simp add: sub_from_not_start)
  finally show ?thesis by (simp only: re_sub_empty_def Cons)
qed

lemma strip_dropWhile: "strip (dropWhile is_space s) = strip s"
  by (simp add: strip_def)

lemma handle_calculate_trigger:
  "w \<in> set triggers \<Longrightarrow>
     handle_calculate L (w @ rest) =
       calculate_record (snd (safe_eval L (replace_char (CHR ''^'') ''**'' (strip rest))))"
  by (simp add: handle_calculate_def re_sub_trigger_hit strip_dropWhile)

lemma handle_calculate_plain:
  "\<forall>w \<in> set triggers. \<not> prefix w t \<Longrightarrow>
     handle_calculate L t =
       calculate_record (snd (safe_eval L (replace_char (CHR ''^'') ''**'' (strip t))))"
  by (simp add: handle_calculate_def re_sub_trigger_miss)

lemma no_caret_left: "CHR ''^'' \<notin> set (replace_char (CHR ''^'') ''**'' s)"
  by (induction s) (simp_all add: replace_char_def)

section \<open>Keyword search\<close>

text \<open>
  A search for \<open>\b(k1|k2|...)\<close> succeeds exactly when one of the keywords occurs at the
  start of the text or after a character that is not a word character.
\<close>

lemma search_from_iff:
  "search_from rs b a \<noteq> None \<longleftrightarrow> (\<exists>u v. a = u @ v \<and> match_parts rs (rev u @ b, v) \<noteq> [])"
proof (induction a arbitrary: b)
  case Nil
  show ?case by (auto split: list.splits)
next
  case (Cons c cs)
  have "search_from rs b (c # cs) \<noteq> None \<longleftrightarrow>
      match_parts rs (b, c # cs) \<noteq> [] \<or> search_from rs (c # b) cs \<noteq> None"
    by (auto split: list.splits)
  also have "\<dots> \<longleftrightarrow> match_parts rs (b, c # cs) \<noteq> []
      \<or> (\<exists>u v. cs = u @ v \<and> match_parts rs (rev u @ c # b, v) \<noteq> [])"
    by (simp only: Cons.IH)
  also have "\<dots> \<longleftrightarrow> (\<exists>u v. c # cs = u @ v \<and> match_parts rs (rev u @ b, v) \<noteq> [])"
    (is "?L \<longleftrightarrow> ?R")
  proof
    assume ?L
    then show ?R
    proof
      assume "match_parts rs (b, c # cs) \<noteq> []"
      then have "c # cs = [] @ (c # cs) \<and> match_parts rs (rev [] @ b, c # cs) \<noteq> []" by simp
      then show ?R by blast
    next
      assume "\<exists>u v. cs = u @ v \<and> match_parts rs (rev u @ c # b, v) \<noteq> []"
      then obtain u v where "cs = u @ v" "match_parts rs (rev u @ c # b, v) \<noteq> []" by blast
      then have "c # cs = (c # u) @ v \<and> match_parts rs (rev (c # u) @ b, v) \<noteq> []" by simp
      then show ?R by blast
    qed
  next
    assume ?R
    then obtain u v where uv: "c # cs = u @ v" "match_parts rs (rev u @ b, v) \<noteq> []" by blast
    show ?L
    proof (cases u)
      case Nil
      with uv show ?thesis by simp
    next
      case (Cons d u')
      with uv have "cs = u' @ v" "match_parts rs (rev u' @ c # b, v) \<noteq> []" by auto
      then show ?thesis by blast
    qed
  qed
  finally show ?case .
qed

lemma match_parts_single: "match_parts [r] p \<noteq> [] \<longleftrightarrow> ms r p \<noteq> []"
  by (cases "ms r p") auto

lemma boundary_before_word:
  "is_word c \<Longrightarrow> at_word_boundary (rev u @ [], c # v) \<longleftrightarrow> (u = [] \<or> \<not> is_word (last u))"
  by (cases u rule: rev_cases) auto

lemma keyword_search:
  assumes kw: "\<And>b v. ms A (b, v) \<noteq> [] \<longleftrightarrow> (\<exists>w \<in> set kws. prefix w v)"
    and word: "\<And>w. w \<in> set kws \<Longrightarrow> w \<noteq> [] \<and> is_word (hd w)"
  shows "re_search [Seq WordB A] t \<noteq> None \<longleftrightarrow> keyword_at kws t"
proof -
  have "re_search [Seq WordB A] t \<noteq> None \<longleftrightarrow>
      (\<exists>u v. t = u @ v \<and> at_word_boundary (rev u @ [], v) \<and> ms A (rev u @ [], v) \<noteq> [])"
    unfolding re_search_def search_from_iff match_parts_single by auto
  also have "\<dots> \<longleftrightarrow> (\<exists>u v. t = u @ v \<and> at_word_boundary (rev u @ [], v) \<and> (\<exists>w \<in> set kws. prefix w v))"
    by (simp only: kw)
  also have "\<dots> \<longleftrightarrow> keyword_at kws t" (is "?L \<longleftrightarrow> ?R")
  proof
    assume ?L
    then obtain u v w where 1: "t = u @ v" "at_word_boundary (rev u @ [], v)" "w \<in> set kws" "prefix w v"
      by blast
    from 1(4) obtain v' where v: "v = w @ v'" by (auto simp: prefix_def)
    from word [OF 1(3)] obtain c w' where w: "w = c # w'" "is_word c" by (cases w) auto
    from 1(2) have "u = [] \<or> \<not> is_word (last u)"
      unfolding v w using boundary_before_word [OF w(2)] by simp
    with 1(1,3) v show ?R unfolding keyword_at_def by blast
  next
    assume ?R
    then obtain u w v' where 2: "t = u @ w @ v'" "w \<in> set kws" "u = [] \<or> \<not> is_word (last u)"
      unfolding keyword_at_def by blast
    from word [OF 2(2)] obtain c w' where w: "w = c # w'" "is_word c" by (cases w) auto
    from 2(3) have bnd: "at_word_boundary (rev u @ [], w @ v')"
      unfolding w using boundary_before_word [OF w(2)] by simp
    have "t = u @ (w @ v')" using 2(1) by simp
    moreover have "prefix w (w @ v')" by simp
    ultimately show ?L using bnd 2(2) by blast
  qed
  finally show ?thesis .
qed

lemma is_word_letters [simp]:
  "is_word (CHR ''c'')" "is_word (CHR ''t'')" "is_word (CHR ''m'')" "is_word (CHR ''a'')"
  "is_word (CHR ''s'')"
  by (simp_all add: text_defs)

lemma stats_search: "re_search [stats_pattern] t \<noteq> None \<longleftrightarrow> keyword_at stats_keywords t"
  unfolding stats_pattern_def
  by (rule keyword_search) (auto simp: ms_lit stats_keywords_def)

lemma csv_search: "re_search [csv_pattern] t \<noteq> None \<longleftrightarrow> keyword_at csv_keywords t"
  unfolding csv_pattern_def
  by (rule keyword_search) (auto simp: ms_lit csv_keywords_def)

lemma ms_seq_lit:
  "ms (Seq (lit x) r) (b, v) \<noteq> [] \<longleftrightarrow> prefix x v \<and> ms r (rev x @ b, drop (length x) v) \<noteq> []"
  by (simp add: ms_lit)

lemma prefix_append_drop: "prefix x v \<and> prefix w (drop (length x) v) \<longleftrightarrow> prefix (x @ w) v"
  by (auto simp: prefix_def)

lemma convert_search: "re_search [convert_pattern] t \<noteq> None \<longleftrightarrow> keyword_at convert_keywords t"
  unfolding convert_pattern_def
proof (rule keyword_search)
  fix b v
  let ?B = "Alt (lit ''cm'') (Alt (lit ''m'') (Alt (lit ''kg'') (lit ''lb'')))"
  have B: "ms ?B (b', v') \<noteq> [] \<longleftrightarrow> (\<exists>w \<in> set [''cm'', ''m'', ''kg'', ''lb'']. prefix w v')"
    for b' v' by (auto simp: ms_lit)
  have "ms (Alt (lit ''convert'') (Seq (lit ''to '') ?B)) (b, v) \<noteq> [] \<longleftrightarrow>
      ms (lit ''convert'') (b, v) \<noteq> [] \<or> ms (Seq (lit ''to '') ?B) (b, v) \<noteq> []"
    by (simp del: ms.simps(4))
  also have "\<dots> \<longleftrightarrow> prefix ''convert'' v
      \<or> (\<exists>w \<in> set [''cm'', ''m'', ''kg'', ''lb'']. prefix ''to '' v \<and> prefix w (drop (length ''to '') v))"
    unfolding ms_seq_lit B by (auto simp: ms_lit)
  also have "\<dots> \<longleftrightarrow> prefix ''convert'' v
      \<or> (\<exists>w \<in> set [''cm'', ''m'', ''kg'', ''lb'']. prefix (''to '' @ w) v)"
    unfolding prefix_append_drop ..
  also have "\<dots> \<longleftrightarrow> (\<exists>w \<in> set convert_keywords. prefix w v)"
    by (simp add: convert_keywords_def del: Cons_prefix_Cons)
  finally show "ms (Alt (lit ''convert'') (Seq (lit ''to '') ?B)) (b, v) \<noteq> []
      \<longleftrightarrow> (\<exists>w \<in> set convert_keywords. prefix w v)" .
next
  fix w
  assume "w \<in> set convert_keywords"
  then show "w \<noteq> [] \<and> is_word (hd w)" by (auto simp: convert_keywords_def)
qed

lemma contains_iff: "contains w t \<longleftrightarrow> (\<exists>u v. t = u @ w @ v)"
proof (induction t)
  case Nil
  show ?case by auto
next
  case (Cons c cs)
  show ?case
  proof
    assume "contains w (c # cs)"
    then consider "prefix w (c # cs)" | "contains w cs" by auto
    then show "\<exists>u v. c # cs = u @ w @ v"
    proof cases
      case 1
      then obtain v where "c # cs = [] @ w @ v" by (auto simp: prefix_def)
      then show ?thesis by blast
    next
      case 2
      with Cons obtain u v where "cs = u @ w @ v" by blast
      then have "c # cs = (c # u) @ w @ v" by simp
      then show ?thesis by blast
    qed
  next
    assume "\<exists>u v. c # cs = u @ w @ v"
    then obtain u v where uv: "c # cs = u @ w @ v" by blast
    show "contains w (c # cs)"
    proof (cases u)
      case Nil
      with uv have "prefix w (c # cs)" by (metis append_Nil prefixI)
      then show ?thesis by simp
    next
      case (Cons d u')
      with uv have "cs = u' @ w @ v" by simp
      with Cons.IH show ?thesis by auto
    qed
  qed
qed

lemma classify_intent_eq:
  "classify_intent text =
     (let t = strip (lower text) in
      if keyword_at convert_keywords t then ''convert''
      else if keyword_at stats_keywords t then ''stats''
      else if keyword_at csv_keywords t then ''generate_csv''
      else if prefix ''calculate'' t \<or> (\<exists>tok \<in> set calc_tokens. \<exists>u v. t = u @ tok @ v)
        then ''calculate''
      else ''unknown'')"
  unfolding classify_intent_def convert_search stats_search csv_search list_ex_iff contains_iff
  by simp

section \<open>Texts with and without digits\<close>









section \<open>Rows of the table\<close>

lemma csv_rows_zip:
  "csv_rows L i vs =
     concat (map (\<lambda>(k, v). writerow [str_nat k, float_repr L v]) (zip [i..<i + length vs] vs))"
proof (induction vs arbitrary: i)
  case Nil
  show ?case by simp
next
  case (Cons v vs)
  have "i < i + length (v # vs)" by simp
  then have "[i..<i + length (v # vs)] = i # [Suc i..<Suc i + length vs]"
    by (simp only: upt_conv_Cons) simp
  then show ?case using Cons [of "Suc i"] by (simp del: upt_Suc)
qed

section \<open>Case of the text\<close>

lemma classify_lower: "lower s = lower t \<Longrightarrow> classify_intent s = classify_intent t"
  by (simp add: classify_intent_def)

section \<open>Exceptions at the handler boundary\<close>

text \<open>
  C1. No handler catches an exception. The stats, csv and unknown handlers return a
  record for every text. The conversion handler returns the error record
  \<open>Invalid conversion format\<close> when its pattern is not found in the text; when it is
  found and the pair of units is not registered, the handler raises the \<open>ValueError\<close> of
  \<open>convert_units\<close>, which names the two units as written; when the pair is registered it
  returns the record of the converted value. The calculate handler raises what the
  evaluator raises on the cleaned text and returns the record of its value otherwise.
  \<open>agent_process\<close> is the handler of the classified intent, so whatever that handler
  raises, \<open>agent_process\<close> raises.
\<close>

theorem handlers_return_or_raise:
  "(\<exists>r. handle_stats L text = Inr r)
   \<and> (\<exists>r. handle_generate_csv L text = Inr r)
   \<and> (\<exists>r. handle_unknown text = Inr r)
   \<and> (re_search convert_pieces text = None \<longrightarrow>
        handle_convert L text =
          Inr [(''status'', S ''error''), (''intent'', S ''convert''),
               (''error'', S ''Invalid conversion format'')])
   \<and> (re_search convert_pieces text = Some (gs, p)
        \<and> UNIT_MAP (lower (gs ! 2), lower (gs ! 6)) = None \<longrightarrow>
        handle_convert L text =
          Inl (ValueError (''No converter registered for '' @ gs ! 2 @ '' -> '' @ gs ! 6)))
   \<and> (re_search convert_pieces text = Some (gs, p)
        \<and> UNIT_MAP (lower (gs ! 2), lower (gs ! 6)) = Some f \<longrightarrow>
        (\<exists>q y. parse_decimal (gs ! 0) = Some q \<and> f (round_double q) = Inr y
           \<and> handle_convert L text =
               Inr [(''status'', S ''ok''), (''intent'', S ''convert''),
                    (''result'', D y), (''from'', S (gs ! 2)), (''to'', S (gs ! 6))]))
   \<and> handle_calculate L text =
       (case snd (safe_eval L (replace_char (CHR ''^'') ''**''
                    (strip (re_sub_empty trigger_pattern text)))) of
          Inl e \<Rightarrow> Inl e
        | Inr v \<Rightarrow> Inr [(''status'', S ''ok''), (''intent'', S ''calculate''), (''result'', N v)])
   \<and> agent_process L text =
       (if classify_intent text = ''convert'' then handle_convert L text
        else if classify_intent text = ''stats'' then handle_stats L text
        else if classify_intent text = ''generate_csv'' then handle_generate_csv L text
        else if classify_intent text = ''calculate'' then handle_calculate L text
        else handle_unknown text)"
proof -
  have u: "\<exists>r. handle_unknown text = Inr r" by (simp add: handle_unknown_def)
  show ?thesis
    using handle_stats_returns [of L "text"] handle_generate_csv_returns [of L "text"] u
      handle_convert_unparsed [of "text" L] handle_convert_unregistered [of "text" gs p L]
      handle_convert_registered [of "text" gs p f L] handle_calculate_cases [of L "text"]
      agent_process_dispatch [of L "text"]
    by blast
qed

theorem handlers_return_or_raise_witness:
  "re_search convert_pieces ''5 cm to lb'' =
     Some ([''5'', '' '', ''cm'', '' '', ''to'', '' '', ''lb''], ''bl ot mc 5'', [])
   \<and> UNIT_MAP (lower ''cm'', lower ''lb'') = None
   \<and> handle_convert bare ''5 cm to lb'' = Inl (ValueError ''No converter registered for cm -> lb'')
   \<and> agent_process bare ''5 cm to lb'' = Inl (ValueError ''No converter registered for cm -> lb'')
   \<and> re_search convert_pieces ''hello'' = None
   \<and> handle_convert bare ''hello'' =
       Inr [(''status'', S ''error''), (''intent'', S ''convert''),
            (''error'', S ''Invalid conversion format'')]
   \<and> re_search convert_pieces ''10 kg to lb'' =
       Some ([''10'', '' '', ''kg'', '' '', ''to'', '' '', ''lb''], ''bl ot gk 01'', [])
   \<and> UNIT_MAP (lower ''kg'', lower ''lb'') = Some (\<lambda>x. fdiv x lb_in_kg)
   \<and> (\<exists>y. fdiv (round_double 10) lb_in_kg = Inr y
        \<and> handle_convert bare ''10 kg to lb'' =
            Inr [(''status'', S ''ok''), (''intent'', S ''convert''),
                 (''result'', D y), (''from'', S ''kg''), (''to'', S ''lb'')])
   \<and> handle_calculate bare ''calculate 1/0'' = Inl ZeroDivisionError"
proof -
  let ?g1 = "[''5'', '' '', ''cm'', '' '', ''to'', '' '', ''lb'']"
  let ?g2 = "[''10'', '' '', ''kg'', '' '', ''to'', '' '', ''lb'']"
  have s1: "re_search convert_pieces ''5 cm to lb'' = Some (?g1, ''bl ot mc 5'', [])"
    by (simp add: eval_defs)
  have m1: "UNIT_MAP (lower ''cm'', lower ''lb'') = None"
    by (simp add: UNIT_MAP_def text_defs)
  have c1: "classify_intent ''5 cm to lb'' = ''convert''"
    by (simp add: classify_defs regex_defs text_defs char_eval)
  have s0: "re_search convert_pieces ''hello'' = None"
    by (simp add: eval_defs)
  have s2: "re_search convert_pieces ''10 kg to lb'' = Some (?g2, ''bl ot gk 01'', [])"
    by (simp add: eval_defs)
  have m2: "UNIT_MAP (lower ''kg'', lower ''lb'') = Some (\<lambda>x. fdiv x lb_in_kg)"
    by (simp add: UNIT_MAP_def text_defs)
  have d2: "parse_decimal ''10'' = Some 10"
    by (simp add: eval_defs)
  have e3: "snd (safe_eval bare (replace_char (CHR ''^'') ''**''
              (strip (re_sub_empty trigger_pattern ''calculate 1/0'')))) = Inl ZeroDivisionError"
    by (simp add: eval_defs)
  from handlers_return_or_raise [of bare "''5 cm to lb''" ?g1 "(''bl ot mc 5'', [])"] s1 m1 c1
  have h1: "handle_convert bare ''5 cm to lb'' = Inl (ValueError ''No converter registered for cm -> lb'')"
    and a1: "agent_process bare ''5 cm to lb'' = Inl (ValueError ''No converter registered for cm -> lb'')"
    by simp_all
  from handlers_return_or_raise [of bare "''hello''"] s0
  have h0: "handle_convert bare ''hello'' =
       Inr [(''status'', S ''error''), (''intent'', S ''convert''),
            (''error'', S ''Invalid conversion format'')]"
    by blast
  from handlers_return_or_raise
    [of bare "''10 kg to lb''" ?g2 "(''bl ot gk 01'', [])" "\<lambda>x. fdiv x lb_in_kg"] s2 m2 d2
  have h2: "\<exists>y. fdiv (round_double 10) lb_in_kg = Inr y
        \<and> handle_convert bare ''10 kg to lb'' =
            Inr [(''status'', S ''ok''), (''intent'', S ''convert''),
                 (''result'', D y), (''from'', S ''kg''), (''to'', S ''lb'')]"
    by simp
  from handlers_return_or_raise [of bare "''calculate 1/0''"] e3
  have h3: "handle_calculate bare ''calculate 1/0'' = Inl ZeroDivisionError"
    by simp
  from s1 m1 h1 a1 s0 h0 s2 m2 h2 h3 show ?thesis by blast
qed

text \<open>
  An unregistered pair of units, a function outside the whitelist and a division by zero
  each leave \<open>agent_process\<close> as an exception, not as an error record.
\<close>

theorem handlers_never_raise_counterexample:
  "agent_process bare ''5 cm to lb'' = Inl (ValueError ''No converter registered for cm -> lb'')
   \<and> agent_process bare ''calculate foo(1)'' = Inl (ValueError ''Function foo not allowed'')
   \<and> agent_process bare ''calculate 1/0'' = Inl ZeroDivisionError"
  by (simp add: eval_defs ALLOWED_NAMES_def math_names_def bare_def)

section \<open>The whitelists are closed\<close>

text \<open>
  C2. A call node whose callee is an identifier outside \<open>ALLOWED_NAMES\<close> evaluates to
  the \<open>ValueError\<close> that names the identifier, with nothing invoked and no argument
  evaluated. Whenever the evaluation of an expression reaches such a call, at any depth,
  the evaluation of the expression raises that \<open>ValueError\<close> and the function is not
  invoked; so does \<open>safe_eval\<close> on a text that parses to such an expression, as
  \<open>__import__('os')\<close>, \<open>2 + __import__('os')\<close> and \<open>abs(-__import__('os'))\<close> do. For
  every text, whatever the evaluator invokes is an entry of \<open>ALLOWED_OPERATORS\<close> or of
  \<open>ALLOWED_NAMES\<close>.
\<close>

theorem whitelist_closed:
  "(ALLOWED_NAMES L func = None \<longrightarrow>
      eval_node L (Call (Name func) args) =
        ([], Inl (ValueError (''Function '' @ func @ '' not allowed''))))
   \<and> (reached L e (Call (Name func) args) \<and> ALLOWED_NAMES L func = None \<longrightarrow>
        snd (eval_node L e) = Inl (ValueError (''Function '' @ func @ '' not allowed''))
        \<and> InvName func \<notin> set (fst (eval_node L e)))
   \<and> (ast_parse_body L s = Inr e \<and> reached L e (Call (Name func) args)
        \<and> ALLOWED_NAMES L func = None \<longrightarrow>
        snd (safe_eval L s) = Inl (ValueError (''Function '' @ func @ '' not allowed''))
        \<and> InvName func \<notin> set (fst (safe_eval L s)))
   \<and> safe_eval L ''__import__('os')'' = ([], Inl (ValueError ''Function __import__ not allowed''))
   \<and> safe_eval L ''2 + __import__('os')'' =
       ([], Inl (ValueError ''Function __import__ not allowed''))
   \<and> safe_eval L ''abs(-__import__('os'))'' =
       ([], Inl (ValueError ''Function __import__ not allowed''))
   \<and> (\<forall>i \<in> set (fst (safe_eval L s)). whitelisted L i)"
proof -
  let ?v = "Inl (ValueError (''Function '' @ func @ '' not allowed'')) :: exn + pyval"
  have node: "ALLOWED_NAMES L func = None \<Longrightarrow> snd (eval_node L (Call (Name func) args)) = ?v"
    by simp
  have tr: "ALLOWED_NAMES L func = None \<Longrightarrow> InvName func \<notin> set (fst (eval_node L e'))" for e'
    using eval_whitelisted(1) [of L e'] by auto
  have a: "reached L e (Call (Name func) args) \<and> ALLOWED_NAMES L func = None \<longrightarrow>
        snd (eval_node L e) = ?v \<and> InvName func \<notin> set (fst (eval_node L e))"
    using reached_raises(1) [of L e "Call (Name func) args"] node tr by blast
  have b: "ast_parse_body L s = Inr e \<and> reached L e (Call (Name func) args)
        \<and> ALLOWED_NAMES L func = None \<longrightarrow>
        snd (safe_eval L s) = ?v \<and> InvName func \<notin> set (fst (safe_eval L s))"
    using a by (auto simp: safe_eval_def)
  have c: "safe_eval L ''__import__('os')'' = ([], Inl (ValueError ''Function __import__ not allowed''))"
    by (simp add: parse_defs text_defs underscore_not_allowed)
  have d: "safe_eval L ''2 + __import__('os')'' =
       ([], Inl (ValueError ''Function __import__ not allowed''))"
    by (simp add: parse_defs text_defs underscore_not_allowed)
  have "ALLOWED_NAMES L ''abs'' = Some (builtin L ''abs'')" by (simp add: ALLOWED_NAMES_def)
  then have e: "safe_eval L ''abs(-__import__('os'))'' =
       ([], Inl (ValueError ''Function __import__ not allowed''))"
    by (simp add: parse_defs text_defs underscore_not_allowed)
  show ?thesis
    using a b c d e safe_eval_whitelisted [of L s] by simp
qed

theorem whitelist_closed_witness:
  "ALLOWED_NAMES bare ''foo'' = None
   \<and> ast_parse_body bare ''2 + foo(1)'' =
       Inr (BinOp (Num (PInt 2)) Add (Call (Name ''foo'') [Num (PInt 1)]))
   \<and> reached bare (BinOp (Num (PInt 2)) Add (Call (Name ''foo'') [Num (PInt 1)]))
       (Call (Name ''foo'') [Num (PInt 1)])
   \<and> snd (safe_eval bare ''2 + foo(1)'') = Inl (ValueError ''Function foo not allowed'')
   \<and> InvName ''foo'' \<notin> set (fst (safe_eval bare ''2 + foo(1)''))
   \<and> fst (safe_eval bare ''2 + 3 * 4'') = [InvOp Mult, InvOp Add]
   \<and> list_all (whitelisted bare) (fst (safe_eval bare ''2 + 3 * 4''))"
proof -
  let ?e = "BinOp (Num (PInt 2)) Add (Call (Name ''foo'') [Num (PInt 1)])"
  have n: "ALLOWED_NAMES bare ''foo'' = None"
    by (simp add: ALLOWED_NAMES_def math_names_def bare_def)
  have p: "ast_parse_body bare ''2 + foo(1)'' = Inr ?e"
    by (simp add: parse_defs text_defs)
  have r: "reached bare ?e (Call (Name ''foo'') [Num (PInt 1)])"
    by simp
  have t: "fst (safe_eval bare ''2 + 3 * 4'') = [InvOp Mult, InvOp Add]"
    by (simp add: parse_defs text_defs)
  from whitelist_closed [where L = bare and func = "''foo''" and args = "[Num (PInt 1)]"
      and s = "''2 + foo(1)''" and e = ?e] n p r
  have v: "snd (safe_eval bare ''2 + foo(1)'') = Inl (ValueError ''Function foo not allowed'')"
    and i: "InvName ''foo'' \<notin> set (fst (safe_eval bare ''2 + foo(1)''))"
    by simp_all
  from whitelist_closed [where L = bare and s = "''2 + 3 * 4''"]
  have w: "list_all (whitelisted bare) (fst (safe_eval bare ''2 + 3 * 4''))"
    unfolding list_all_iff by blast
  from n p r v i t w show ?thesis by blast
qed

text \<open>
  The exception raised is the first one met in evaluation order. When an operand
  evaluated before the call raises, the call node is not reached and the exception does
  not name the function.
\<close>

theorem disallowed_call_always_named_counterexample:
  "ALLOWED_NAMES bare ''foo'' = None
   \<and> safe_eval bare ''1/0 + foo(1)'' = ([InvOp Div], Inl ZeroDivisionError)
   \<and> safe_eval bare ''x + foo(1)'' = ([], Inl (TypeError ''Unsupported expression''))"
  by (simp add: parse_defs text_defs ALLOWED_NAMES_def math_names_def bare_def)

section \<open>Nesting depth\<close>

text \<open>
  C3. The evaluator does not stop at a nesting depth of 256. For every \<open>n < 500\<close> the
  text of \<open>n\<close> plus signs and a \<open>1\<close> parses to an expression of depth \<open>n\<close>, and
  \<open>safe_eval\<close> applies the operator \<open>n\<close> times and returns \<open>1\<close>.
\<close>

theorem evaluator_has_no_depth_limit:
  "n < 500 \<longrightarrow>
     parse_fragment (replicate n (CHR ''+'') @ ''1'') = Some (nest_plus n (Num (PInt 1)))
     \<and> depth (nest_plus n (Num (PInt 1))) = n
     \<and> safe_eval L (replicate n (CHR ''+'') @ ''1'') = (replicate n (InvOp UAdd), Inr (PInt 1))"
  using depth_nest_plus parse_fragment_plus safe_eval_plus by blast

theorem evaluator_has_no_depth_limit_witness:
  "(257::nat) < 500
   \<and> parse_fragment (replicate 257 (CHR ''+'') @ ''1'') = Some (nest_plus 257 (Num (PInt 1)))
   \<and> depth (nest_plus 257 (Num (PInt 1))) = 257
   \<and> safe_eval bare (replicate 257 (CHR ''+'') @ ''1'') = (replicate 257 (InvOp UAdd), Inr (PInt 1))"
proof -
  have "(257::nat) < 500" by simp
  with evaluator_has_no_depth_limit [where n = 257 and L = bare]
  show ?thesis by blast
qed

text \<open>At depth 257 the evaluator returns a value.\<close>

theorem depth_guard_counterexample:
  "depth (nest_plus 257 (Num (PInt 1))) = 257
   \<and> parse_fragment (replicate 257 (CHR ''+'') @ ''1'') = Some (nest_plus 257 (Num (PInt 1)))
   \<and> snd (safe_eval bare (replicate 257 (CHR ''+'') @ ''1'')) = Inr (PInt 1)"
proof -
  have lt: "(257::nat) < 500" by simp
  have "snd (safe_eval bare (replicate 257 (CHR ''+'') @ ''1'')) = Inr (PInt 1)"
    by (simp only: safe_eval_plus [OF lt] snd_conv)
  with depth_nest_plus parse_fragment_plus [OF lt] show ?thesis by blast
qed

section \<open>Priority of the intents\<close>

text \<open>
  C4. \<open>classify_intent\<close> works on the lower-cased, stripped text and answers the first
  of: \<open>convert\<close> when a convert keyword occurs at a word boundary, \<open>stats\<close> and
  \<open>generate_csv\<close> likewise, \<open>calculate\<close> when the text starts with \<open>calculate\<close> or
  contains one of the tokens \<open>+ - * / sqrt ^\<close>, and \<open>unknown\<close> otherwise. Texts that
  agree after lower-casing are classified alike, and \<open>mean of 2 + 2\<close> is \<open>stats\<close>.
  The prefixes \<open>what is\<close> and \<open>evaluate\<close> play no part in the classification.
\<close>

theorem classify_priority:
  "classify_intent inp =
     (let t = strip (lower inp) in
      if keyword_at convert_keywords t then ''convert''
      else if keyword_at stats_keywords t then ''stats''
      else if keyword_at csv_keywords t then ''generate_csv''
      else if prefix ''calculate'' t
              \<or> (\<exists>tok \<in> set calc_tokens. \<exists>u v. t = u @ tok @ v)
        then ''calculate''
      else ''unknown'')
   \<and> (lower inp = lower inp' \<longrightarrow> classify_intent inp = classify_intent inp')
   \<and> classify_intent ''mean of 2 + 2'' = ''stats''"
proof -
  have "classify_intent ''mean of 2 + 2'' = ''stats''"
    by (simp add: classify_defs regex_defs text_defs char_eval)
  then show ?thesis
    using classify_intent_eq [of inp] classify_lower [of inp inp']
    by blast
qed

theorem classify_priority_witness:
  "lower ''MEAN of 2 + 2'' = lower ''mean of 2 + 2''
   \<and> classify_intent ''MEAN of 2 + 2'' = classify_intent ''mean of 2 + 2''
   \<and> classify_intent ''mean of 2 + 2'' = ''stats''"
proof -
  have "lower ''MEAN of 2 + 2'' = lower ''mean of 2 + 2''"
    by (simp add: text_defs char_eval)
  with classify_priority [of "''MEAN of 2 + 2''" "''mean of 2 + 2''"]
  show ?thesis by blast
qed

text \<open>
  Without an arithmetic token, a text that starts with \<open>what is\<close> or \<open>evaluate\<close> is
  \<open>unknown\<close>.
\<close>

theorem classify_calculate_prefixes_counterexample:
  "classify_intent ''what is 5'' = ''unknown'' \<and> classify_intent ''evaluate 7'' = ''unknown''"
  by (simp add: classify_defs regex_defs text_defs char_eval)

section \<open>The calculate handler\<close>

text \<open>
  C5. \<open>agent_process\<close> on \<open>calculate 2 + 3 * 4\<close> returns the record with status \<open>ok\<close>,
  intent \<open>calculate\<close> and result \<open>14\<close>. The handler removes a leading \<open>calculate\<close>,
  \<open>what is\<close> or \<open>evaluate\<close> and strips the rest, leaves a text without such a prefix as
  it is but for the stripping, replaces every caret by \<open>**\<close> so that no caret remains,
  and builds its record from what \<open>safe_eval\<close> gives on that text.
\<close>

theorem calculate_handler:
  "agent_process L ''calculate 2 + 3 * 4'' =
     Inr [(''status'', S ''ok''), (''intent'', S ''calculate''), (''result'', N (PInt 14))]
   \<and> (w \<in> set triggers \<longrightarrow>
        handle_calculate L (w @ rest) =
          calculate_record (snd (safe_eval L (replace_char (CHR ''^'') ''**'' (strip rest)))))
   \<and> ((\<forall>w \<in> set triggers. \<not> prefix w inp) \<longrightarrow>
        handle_calculate L inp =
          calculate_record (snd (safe_eval L (replace_char (CHR ''^'') ''**'' (strip inp)))))
   \<and> CHR ''^'' \<notin> set (replace_char (CHR ''^'') ''**'' s)
   \<and> replace_char (CHR ''^'') ''**'' ''2^3^2'' = ''2**3**2''"
proof -
  have "agent_process L ''calculate 2 + 3 * 4'' =
     Inr [(''status'', S ''ok''), (''intent'', S ''calculate''), (''result'', N (PInt 14))]"
    by (simp add: eval_defs)
  moreover have "replace_char (CHR ''^'') ''**'' ''2^3^2'' = ''2**3**2''"
    by (simp add: replace_char_def)
  ultimately show ?thesis
    using handle_calculate_trigger [of w L rest] handle_calculate_plain [of inp L]
      no_caret_left [of s]
    by blast
qed

theorem calculate_handler_witness:
  "''what is'' \<in> set triggers
   \<and> handle_calculate bare (''what is'' @ '' 2 ^ 3'') =
       Inr [(''status'', S ''ok''), (''intent'', S ''calculate''), (''result'', N (PInt 8))]
   \<and> list_all (\<lambda>w. \<not> prefix w ''2 + 3'') triggers
   \<and> handle_calculate bare ''2 + 3'' =
       Inr [(''status'', S ''ok''), (''intent'', S ''calculate''), (''result'', N (PInt 5))]"
proof -
  have t: "''what is'' \<in> set triggers" by (simp add: triggers_def)
  have n': "list_all (\<lambda>w. \<not> prefix w ''2 + 3'') triggers" by (simp add: triggers_def)
  then have n: "\<forall>w \<in> set triggers. \<not> prefix w ''2 + 3''" by (simp only: list_all_iff)
  have a: "calculate_record (snd (safe_eval bare (replace_char (CHR ''^'') ''**'' (strip '' 2 ^ 3'')))) =
       Inr [(''status'', S ''ok''), (''intent'', S ''calculate''), (''result'', N (PInt 8))]"
    by (simp add: parse_defs text_defs)
  have b: "calculate_record (snd (safe_eval bare (replace_char (CHR ''^'') ''**'' (strip ''2 + 3'')))) =
       Inr [(''status'', S ''ok''), (''intent'', S ''calculate''), (''result'', N (PInt 5))]"
    by (simp add: parse_defs text_defs)
  from calculate_handler [of bare "''what is''" "'' 2 ^ 3''" "''2 + 3''"] t n n' a b
  show ?thesis by simp
qed

section \<open>The stats handler\<close>



section \<open>The csv handler\<close>

text \<open>
  C8. \<open>agent_process\<close> on \<open>generate csv 1 2 3\<close> returns status \<open>ok\<close>, intent
  \<open>generate_csv\<close> and the csv text \<open>index,value\<close>, \<open>1,1.0\<close>, \<open>2,2.0\<close>, \<open>3,3.0\<close>, each
  line ended by carriage return and line feed. In general the text is the header row
  followed by one row for each extracted number, in order, with its index counted from
  \<open>1\<close> and its value.
\<close>

theorem csv_handler:
  "agent_process L ''generate csv 1 2 3'' =
     Inr [(''status'', S ''ok''), (''intent'', S ''generate_csv''),
          (''csv'', S (''index,value'' @ [CHR 0x0D, CHR 0x0A] @ ''1,1.0'' @ [CHR 0x0D, CHR 0x0A]
             @ ''2,2.0'' @ [CHR 0x0D, CHR 0x0A] @ ''3,3.0'' @ [CHR 0x0D, CHR 0x0A]))]
   \<and> (extract_numbers_from_text L inp = Inr nums \<and> nums \<noteq> [] \<longrightarrow>
        handle_generate_csv L inp =
          Inr [(''status'', S ''ok''), (''intent'', S ''generate_csv''),
               (''csv'', S (writerow [''index'', ''value''] @
                  concat (map (\<lambda>(i, v). writerow [str_nat i, float_repr L v])
                              (zip [1..<1 + length nums] nums))))])
   \<and> writerow [''index'', ''value''] = ''index,value'' @ [CHR 0x0D, CHR 0x0A]"
proof -
  have "agent_process L ''generate csv 1 2 3'' =
     Inr [(''status'', S ''ok''), (''intent'', S ''generate_csv''),
          (''csv'', S (''index,value'' @ [CHR 0x0D, CHR 0x0A] @ ''1,1.0'' @ [CHR 0x0D, CHR 0x0A]
             @ ''2,2.0'' @ [CHR 0x0D, CHR 0x0A] @ ''3,3.0'' @ [CHR 0x0D, CHR 0x0A]))]"
    by (simp add: eval_defs)
  moreover have "writerow [''index'', ''value''] = ''index,value'' @ [CHR 0x0D, CHR 0x0A]"
    by (simp add: writerow_def csv_field_def needs_quote_def)
  moreover have "extract_numbers_from_text L inp = Inr nums \<and> nums \<noteq> [] \<longrightarrow>
        handle_generate_csv L inp =
          Inr [(''status'', S ''ok''), (''intent'', S ''generate_csv''),
               (''csv'', S (writerow [''index'', ''value''] @
                  concat (map (\<lambda>(i, v). writerow [str_nat i, float_repr L v])
                              (zip [1..<1 + length nums] nums))))]"
    by (simp add: handle_generate_csv_def csv_rows_zip del: upt_Suc)
  ultimately show ?thesis by blast
qed

theorem csv_handler_witness:
  "extract_numbers_from_text bare ''generate csv 1 2 3'' = Inr [1, 2, 3]
   \<and> [1, 2, 3 :: rat] \<noteq> []
   \<and> handle_generate_csv bare ''generate csv 1 2 3'' =
       Inr [(''status'', S ''ok''), (''intent'', S ''generate_csv''),
            (''csv'', S (writerow [''index'', ''value''] @
               concat (map (\<lambda>(i, v). writerow [str_nat i, float_repr bare v])
                           (zip [1..<1 + length [1, 2, 3 :: rat]] [1, 2, 3]))))]"
proof -
  have x: "extract_numbers_from_text bare ''generate csv 1 2 3'' = Inr [1, 2, 3]"
    by (simp add: eval_defs)
  from csv_handler [of bare "''generate csv 1 2 3''" "[1, 2, 3]"] x
  show ?thesis by simp
qed

section \<open>Case-sensitive keywords in the stats handler\<close>

text \<open>
  C9. The classifier matches on the lower-cased text, the stats handler looks for its
  keywords in the text as given. For \<open>Mean of 5, 10, 15\<close> the classifier answers
  \<open>stats\<close> and the handler, which finds numbers but none of the lower-case keywords,
  returns the error record \<open>No valid operation found\<close>; so does \<open>agent_process\<close>.
  With a lower-case \<open>mean\<close> the same numbers give the mean.
\<close>

theorem stats_keyword_case_sensitive:
  "classify_intent ''Mean of 5, 10, 15'' = ''stats''
   \<and> handle_stats L ''Mean of 5, 10, 15'' =
       Inr [(''status'', S ''error''), (''intent'', S ''stats''),
            (''error'', S ''No valid operation found'')]
   \<and> agent_process L ''Mean of 5, 10, 15'' =
       Inr [(''status'', S ''error''), (''intent'', S ''stats''),
            (''error'', S ''No valid operation found'')]
   \<and> handle_stats L ''mean of 5, 10, 15'' =
       Inr [(''status'', S ''ok''), (''intent'', S ''stats''), (''operation'', S ''mean''),
            (''result'', N (PFloat 10))]"
  by (simp add: eval_defs)

theorem stats_keyword_case_sensitive_witness:
  "classify_intent ''Mean of 5, 10, 15'' = ''stats''
   \<and> handle_stats bare ''Mean of 5, 10, 15'' =
       Inr [(''status'', S ''error''), (''intent'', S ''stats''),
            (''error'', S ''No valid operation found'')]
   \<and> agent_process bare ''Mean of 5, 10, 15'' =
       Inr [(''status'', S ''error''), (''intent'', S ''stats''),
            (''error'', S ''No valid operation found'')]
   \<and> handle_stats bare ''mean of 5, 10, 15'' =
       Inr [(''status'', S ''ok''), (''intent'', S ''stats''), (''operation'', S ''mean''),
            (''result'', N (PFloat 10))]"
  by (rule stats_keyword_case_sensitive)

section \<open>Calls whose callee is not an identifier\<close>

lemma eval_call_not_name:
  "\<forall>x. callee \<noteq> Name x \<Longrightarrow>
     eval_node L (Call callee args) = ([], Inl (AttributeError (class_name callee) ''id''))"
  by (cases callee) auto

text \<open>
  C10. \<open>math.sqrt(2)\<close> and \<open>(1)(2)\<close> parse, and their callee is an attribute access
  and a constant. Reading \<open>node.func.id\<close> raises \<open>AttributeError\<close>: nothing is invoked,
  the whitelist is not consulted, and the exception is none of \<open>ValueError\<close> (function
  not allowed), \<open>SyntaxError\<close> and \<open>TypeError\<close> (unsupported expression). The same
  holds for every call whose callee is not a \<open>Name\<close> node.
\<close>

theorem callee_not_identifier_faults:
  "parse_fragment ''math.sqrt(2)'' = Some (Call (Attribute (Name ''math'') ''sqrt'') [Num (PInt 2)])
   \<and> safe_eval L ''math.sqrt(2)'' = ([], Inl (AttributeError ''Attribute'' ''id''))
   \<and> parse_fragment ''(1)(2)'' = Some (Call (Num (PInt 1)) [Num (PInt 2)])
   \<and> safe_eval L ''(1)(2)'' = ([], Inl (AttributeError ''Constant'' ''id''))
   \<and> ((\<forall>x. callee \<noteq> Name x) \<longrightarrow>
        eval_node L (Call callee args) = ([], Inl (AttributeError (class_name callee) ''id'')))"
  by (simp add: eval_call_not_name parse_defs text_defs)

theorem callee_not_identifier_faults_witness:
  "(\<forall>x. Attribute (Name ''math'') ''sqrt'' \<noteq> Name x)
   \<and> safe_eval bare ''math.sqrt(2)'' = ([], Inl (AttributeError ''Attribute'' ''id''))
   \<and> safe_eval bare ''(1)(2)'' = ([], Inl (AttributeError ''Constant'' ''id''))
   \<and> eval_node bare (Call (Attribute (Name ''math'') ''sqrt'') [Num (PInt 2)]) =
       ([], Inl (AttributeError ''Attribute'' ''id''))"
  using callee_not_identifier_faults
    [where callee = "Attribute (Name ''math'') ''sqrt''" and L = bare and args = "[Num (PInt 2)]"]
  by simp

section \<open>Kilograms to pounds and back\<close>

text \<open>
  C6. For every float \<open>x\<close> of magnitude at most \<open>8e307\<close>, converting \<open>x\<close> from \<open>kg\<close> to
  \<open>lb\<close> and the result from \<open>lb\<close> to \<open>kg\<close> gives finite floats, and the value that comes
  back differs from \<open>x\<close> by at most \<open>1e-9\<close> times the magnitude of \<open>x\<close>, in binary64
  arithmetic with rounding to nearest.
\<close>

theorem kg_lb_round_trip:
  "round_double x = Fin x \<and> \<bar>x\<bar> \<le> 8 * 10 ^ 307 \<longrightarrow>
     (\<exists>y z. convert_units (Fin x) ''kg'' ''lb'' = Inr (Fin y)
        \<and> convert_units (Fin y) ''lb'' ''kg'' = Inr (Fin z)
        \<and> \<bar>z - x\<bar> \<le> \<bar>x\<bar> / 10 ^ 9)"
  unfolding convert_kg_lb convert_lb_kg using kg_lb_kg [of x] by auto

theorem kg_lb_round_trip_witness:
  "round_double 10 = Fin 10 \<and> \<bar>10 :: rat\<bar> \<le> 8 * 10 ^ 307
   \<and> (\<exists>y z. convert_units (Fin 10) ''kg'' ''lb'' = Inr (Fin y)
        \<and> convert_units (Fin y) ''lb'' ''kg'' = Inr (Fin z)
        \<and> \<bar>z - 10\<bar> \<le> \<bar>10\<bar> / 10 ^ 9)"
proof -
  have b: "\<bar>10 :: rat\<bar> \<le> 8 * 10 ^ 307" by simp
  from kg_lb_round_trip [of 10] ten_is_double b
  have "\<exists>y z. convert_units (Fin 10) ''kg'' ''lb'' = Inr (Fin y)
        \<and> convert_units (Fin y) ''lb'' ''kg'' = Inr (Fin z)
        \<and> \<bar>z - 10\<bar> \<le> \<bar>10\<bar> / 10 ^ 9" by blast
  with ten_is_double b show ?thesis by blast
qed

text \<open>
  The float \<open>2^1023\<close> is beyond that range: the division overflows to infinity, and the
  conversion back gives infinity.
\<close>

theorem kg_lb_overflow_counterexample:
  "round_double (2 ^ 1023) = Fin (2 ^ 1023)
   \<and> convert_units (Fin (2 ^ 1023)) ''kg'' ''lb'' = Inr PInf
   \<and> convert_units PInf ''lb'' ''kg'' = Inr PInf"
  unfolding convert_kg_lb convert_lb_kg using kg_lb_overflow by simp

end
